theory Spec2Isabelle
  imports Main
begin

section \<open>Entity metadata\<close>

text \<open>
  The schema generator of \<^verbatim>\<open>src/generator.js\<close> reads Sequelize models. A model is
  kept here as the data the generator reads from it: its attributes, its associations in
  the order \<^verbatim>\<open>for ... in\<close> enumerates them, its primary key attributes, the plural
  name of its options and the inline resolver overrides of its options. The \<^verbatim>\<open>models\<close>
  object is the list of its own entries that are models; \<^verbatim>\<open>models[n]\<close> is
  \<open>map_of models n\<close>, and \<open>None\<close> stands for \<^verbatim>\<open>undefined\<close>.
\<close>

datatype error = TypeError | InvalidType | Rejected string

record attribute =
  attr_type :: string
  attr_allowNull :: bool
  attr_primaryKey :: bool

record relation =
  associationType :: string
  target_name :: string

datatype override = Function string | Descriptor string

record model =
  model_name :: string
  rawAttributes :: "(string \<times> attribute) list"
  associations :: "(string \<times> relation) list"
  primaryKeyAttributes :: "string list"
  options_name_plural :: "string option"
  resolvers_query :: "(string \<times> override) list option"

type_synonym models = "(string \<times> model) list"

section \<open>Deep associations\<close>

text \<open>
  \<^verbatim>\<open>getDeepAssociations(modelName, models)\<close> pushes, for every association of
  \<^verbatim>\<open>models[modelName]\<close> whose type is the string \<^verbatim>\<open>'HasMany'\<close>, the entry
  \<^verbatim>\<open>{ model: models[relation.target.name], include: getDeepAssociations(relation.target.name, models) }\<close>.
  The recursion has no guard against a cycle, so the model takes fuel: \<open>None\<close> is a call
  that does not return. Reading \<^verbatim>\<open>.associations\<close> of an undefined model throws.
\<close>

datatype include_entry =
  IncludeEntry (entry_model: "model option") (entry_include: "include_entry list")

fun collect_includes ::
  "(string \<Rightarrow> (error + include_entry list) option) \<Rightarrow> models \<Rightarrow>
   (string \<times> relation) list \<Rightarrow> include_entry list \<Rightarrow> (error + include_entry list) option"
where
  "collect_includes rec ms [] includeArrayModels = Some (Inr includeArrayModels)"
| "collect_includes rec ms ((associationName, rel) # rest) includeArrayModels =
     (if associationType rel = ''HasMany'' then
        (case rec (target_name rel) of
           None \<Rightarrow> None
         | Some (Inl e) \<Rightarrow> Some (Inl e)
         | Some (Inr inc) \<Rightarrow>
             collect_includes rec ms rest
               (includeArrayModels @ [IncludeEntry (map_of ms (target_name rel)) inc]))
      else collect_includes rec ms rest includeArrayModels)"

fun getDeepAssociations ::
  "nat \<Rightarrow> string \<Rightarrow> models \<Rightarrow> (error + include_entry list) option"
where
  "getDeepAssociations 0 modelName ms = None"
| "getDeepAssociations (Suc fuel) modelName ms =
     (case map_of ms modelName of
        None \<Rightarrow> Some (Inl TypeError)
      | Some m \<Rightarrow>
          collect_includes (\<lambda>t. getDeepAssociations fuel t ms) ms (associations m) [])"

text \<open>The HasMany targets of an entity, and the HasMany edges of an entity map.\<close>

definition hasMany_relations :: "model \<Rightarrow> relation list" where
  "hasMany_relations m =
     filter (\<lambda>rel. associationType rel = ''HasMany'') (map snd (associations m))"

definition hasMany_targets :: "models \<Rightarrow> string \<Rightarrow> string list" where
  "hasMany_targets ms a =
     (case map_of ms a of
        None \<Rightarrow> []
      | Some m \<Rightarrow> map target_name (hasMany_relations m))"

definition hasMany_edges :: "models \<Rightarrow> (string \<times> string) set" where
  "hasMany_edges ms = {(a, b). b \<in> set (hasMany_targets ms a)}"

text \<open>
  The HasMany graph reachable from \<open>a\<close> is acyclic: no entity reachable from \<open>a\<close>
  reaches itself again. It is closed when every entity reachable from \<open>a\<close>, \<open>a\<close>
  included, is an entry of the entity map.
\<close>

definition acyclic_from :: "models \<Rightarrow> string \<Rightarrow> bool" where
  "acyclic_from ms a =
     (\<forall>b. (a, b) \<in> (hasMany_edges ms)\<^sup>* \<longrightarrow> (b, b) \<notin> (hasMany_edges ms)\<^sup>+)"

definition closed_from :: "models \<Rightarrow> string \<Rightarrow> bool" where
  "closed_from ms a =
     (\<forall>b. (a, b) \<in> (hasMany_edges ms)\<^sup>* \<longrightarrow> map_of ms b \<noteq> None)"


text \<open>
  The cascader returns \<open>cs\<close> for \<open>a\<close> when some amount of fuel is enough for it. An
  entry answers a HasMany association when its model is the association's target, an
  entity of the map, and its include is what the cascader returns for that target.
\<close>

definition cascade_of :: "models \<Rightarrow> string \<Rightarrow> include_entry list \<Rightarrow> bool" where
  "cascade_of ms a cs = (\<exists>n. getDeepAssociations n a ms = Some (Inr cs))"

definition entry_for :: "models \<Rightarrow> relation \<Rightarrow> include_entry \<Rightarrow> bool" where
  "entry_for ms rel c =
     (entry_model c \<noteq> None \<and>
      entry_model c = map_of ms (target_name rel) \<and>
      cascade_of ms (target_name rel) (entry_include c))"

text \<open>
  A HasMany chain from \<open>a\<close>: a sequence of entities, each a HasMany target of the one
  before it, the first a HasMany target of \<open>a\<close>. A cascade is nested along a chain when
  it has an entry for the first entity of the chain, an entity of the map, whose include
  is nested along the rest of the chain.
\<close>

fun hasMany_chain :: "models \<Rightarrow> string \<Rightarrow> string list \<Rightarrow> bool" where
  "hasMany_chain ms a [] = True"
| "hasMany_chain ms a (t # ts) = (t \<in> set (hasMany_targets ms a) \<and> hasMany_chain ms t ts)"

fun nested_along :: "models \<Rightarrow> string list \<Rightarrow> include_entry list \<Rightarrow> bool" where
  "nested_along ms [] cs = True"
| "nested_along ms (t # ts) cs =
     (\<exists>c \<in> set cs. entry_model c \<noteq> None \<and> entry_model c = map_of ms t \<and>
        nested_along ms ts (entry_include c))"

subsection \<open>Example entity maps\<close>

text \<open>
  A chain: \<open>A\<close> has many \<open>B\<close>, \<open>B\<close> has many \<open>C\<close>; \<open>B\<close> belongs to \<open>A\<close> and
  \<open>A\<close> belongs to many \<open>T\<close>. And a cycle: \<open>N\<close> has many \<open>N\<close>.
\<close>

definition id_attribute :: "string \<times> attribute" where
  "id_attribute =
     (''id'', \<lparr>attr_type = ''INTEGER'', attr_allowNull = False, attr_primaryKey = True\<rparr>)"

definition entity_C :: model where
  "entity_C =
     \<lparr>model_name = ''C'', rawAttributes = [id_attribute], associations = [],
      primaryKeyAttributes = [''id''], options_name_plural = Some ''cs'',
      resolvers_query = None\<rparr>"

definition entity_B :: model where
  "entity_B =
     \<lparr>model_name = ''B'', rawAttributes = [id_attribute],
      associations =
        [(''cs'', \<lparr>associationType = ''HasMany'', target_name = ''C''\<rparr>),
         (''a'', \<lparr>associationType = ''BelongsTo'', target_name = ''A''\<rparr>)],
      primaryKeyAttributes = [''id''], options_name_plural = Some ''bs'',
      resolvers_query = None\<rparr>"

definition entity_T :: model where
  "entity_T =
     \<lparr>model_name = ''T'', rawAttributes = [id_attribute], associations = [],
      primaryKeyAttributes = [''id''], options_name_plural = Some ''ts'',
      resolvers_query = None\<rparr>"

definition entity_A :: model where
  "entity_A =
     \<lparr>model_name = ''A'', rawAttributes = [id_attribute],
      associations =
        [(''ts'', \<lparr>associationType = ''BelongsToMany'', target_name = ''T''\<rparr>),
         (''bs'', \<lparr>associationType = ''HasMany'', target_name = ''B''\<rparr>)],
      primaryKeyAttributes = [''id''], options_name_plural = Some ''as'',
      resolvers_query = None\<rparr>"

definition chain_models :: models where
  "chain_models = [(''A'', entity_A), (''B'', entity_B), (''C'', entity_C), (''T'', entity_T)]"

definition entity_N :: model where
  "entity_N =
     \<lparr>model_name = ''N'', rawAttributes = [id_attribute],
      associations = [(''children'', \<lparr>associationType = ''HasMany'', target_name = ''N''\<rparr>)],
      primaryKeyAttributes = [''id''], options_name_plural = Some ''ns'',
      resolvers_query = None\<rparr>"

definition cycle_models :: models where
  "cycle_models = [(''N'', entity_N)]"

section \<open>JavaScript values\<close>

text \<open>
  The \<^verbatim>\<open>where\<close> argument is of the JSON type of graphql-sequelize, so its values are
  JSON values. \<open>JNum\<close> carries an integer. \<open>js_String\<close> is \<^verbatim>\<open>String(value)\<close>: an array
  joins the strings of its elements with commas, \<^verbatim>\<open>null\<close> elements giving the empty
  string, and a plain object gives \<^verbatim>\<open>[object Object]\<close>. (JavaScript renders a
  fraction with a point and a number from \<open>10^21\<close> on with an exponent; \<open>show_int\<close> is
  the rendering of the integers below that.)
\<close>

datatype jv =
  JNull | JBool bool | JNum int | JStr string | JArr "jv list" | JObj "(string \<times> jv) list"

fun show_nat :: "nat \<Rightarrow> string" where
  "show_nat n =
     (if n < 10 then [char_of (48 + n)]
      else show_nat (n div 10) @ [char_of (48 + n mod 10)])"

declare show_nat.simps [simp del]

definition show_int :: "int \<Rightarrow> string" where
  "show_int i = (if i < 0 then CHR ''-'' # show_nat (nat (- i)) else show_nat (nat i))"

fun js_join :: "string \<Rightarrow> string list \<Rightarrow> string" where
  "js_join sep [] = []"
| "js_join sep [s] = s"
| "js_join sep (s # t # rest) = s @ sep @ js_join sep (t # rest)"

fun js_String :: "jv \<Rightarrow> string" where
  "js_String JNull = ''null''"
| "js_String (JBool b) = (if b then ''true'' else ''false'')"
| "js_String (JNum n) = show_int n"
| "js_String (JStr s) = s"
| "js_String (JArr vs) =
     js_join '','' (map (\<lambda>v. if v = JNull then [] else js_String v) vs)"
| "js_String (JObj kvs) = ''[object Object]''"

text \<open>
  JavaScript numbers are doubles. \<open>to_double n\<close> is the double nearest to the integer
  \<open>n\<close> (ties to even), which is what an arithmetic operation whose exact result is \<open>n\<close>
  returns; integers of magnitude below \<open>2^53\<close> are doubles themselves.
\<close>

function bit_length :: "int \<Rightarrow> nat" where
  "bit_length n = (if n \<le> 0 then 0 else Suc (bit_length (n div 2)))"
  by pat_completeness auto
termination
  by (relation "measure nat") auto

declare bit_length.simps [simp del]

definition to_double :: "int \<Rightarrow> int" where
  "to_double n =
     (if \<bar>n\<bar> < 2 ^ 53 then n
      else
        (let a = \<bar>n\<bar>;
             e = bit_length a - 53;
             q = a div 2 ^ e;
             r = a mod 2 ^ e;
             h = 2 ^ (e - 1);
             q' = (if h < r \<or> (r = h \<and> odd q) then q + 1 else q)
         in sgn n * (q' * 2 ^ e)))"

definition js_sub :: "int \<Rightarrow> int \<Rightarrow> int" where
  "js_sub a b = to_double (a - b)"

definition js_mul :: "int \<Rightarrow> int \<Rightarrow> int" where
  "js_mul a b = to_double (a * b)"

text \<open>
  \<^verbatim>\<open>parseInt\<close> of a number parses its decimal rendering, which gives the number back
  for an integer below \<open>10^21\<close> in magnitude; \<^verbatim>\<open>page\<close> and \<^verbatim>\<open>pageSize\<close> are
  \<^verbatim>\<open>GraphQLInt\<close> arguments, signed 32-bit integers.
\<close>

definition parseInt :: "int \<Rightarrow> int" where
  "parseInt n = n"

definition GraphQLInt_range :: "int \<Rightarrow> bool" where
  "GraphQLInt_range n = (- (2 ^ 31) \<le> n \<and> n \<le> 2 ^ 31 - 1)"

section \<open>The Restful query resolver\<close>

text \<open>
  The resolver of the generated field \<^verbatim>\<open><e>Restful\<close>. Its arguments are read at
  \<^verbatim>\<open>where\<close>, \<^verbatim>\<open>order\<close>, \<^verbatim>\<open>page\<close> and \<^verbatim>\<open>pageSize\<close>; \<open>None\<close> is an argument
  that is absent or \<^verbatim>\<open>null\<close>. The \<^verbatim>\<open>where\<close> object is the list of its entries in
  enumeration order. A condition passed to the store is the value as supplied (which
  Sequelize reads as equality) or the object \<^verbatim>\<open>{ [models.Op.like]: value }\<close>.
\<close>

record restful_args =
  arg_where :: "(string \<times> jv) list option"
  arg_order :: "string list list option"
  arg_page :: "int option"
  arg_pageSize :: "int option"

record request_context =
  dataloaderContext :: "string option"
  request :: string

datatype loader = Dataloader string | WholeContext request_context

datatype where_condition = Plain jv | OpLike jv

record find_options =
  opt_where :: "(string \<times> where_condition) list option"
  opt_order :: "string list list option"
  opt_limit :: int
  opt_offset :: int
  opt_dataloader :: loader

type_synonym row = "(string \<times> jv) list"

record info =
  total_count :: nat
  pageSize :: int
  page :: int

record envelope =
  info :: info
  results :: "row list"

definition has_wildcard :: "jv \<Rightarrow> bool" where
  "has_wildcard v = (CHR ''%'' \<in> set (js_String v))"

definition parse_where :: "(string \<times> jv) list \<Rightarrow> (string \<times> where_condition) list" where
  "parse_where w =
     map (\<lambda>(key, v). (key, if has_wildcard v then OpLike v else Plain v)) w"

definition expected_options :: "request_context \<Rightarrow> loader" where
  "expected_options ctx =
     (case dataloaderContext ctx of Some d \<Rightarrow> Dataloader d | None \<Rightarrow> WholeContext ctx)"

definition restful_limit :: "restful_args \<Rightarrow> int" where
  "restful_limit args =
     (case arg_pageSize args of
        Some s \<Rightarrow> if s \<noteq> 0 then parseInt s else 10
      | None \<Rightarrow> 10)"

definition restful_offset :: "restful_args \<Rightarrow> int" where
  "restful_offset args =
     (case arg_page args of
        Some p \<Rightarrow> if p \<noteq> 0 then js_mul (js_sub p 1) (restful_limit args) else 0
      | None \<Rightarrow> 0)"

definition restful_page :: "restful_args \<Rightarrow> int" where
  "restful_page args =
     (case arg_page args of Some p \<Rightarrow> if p \<noteq> 0 then p else 1 | None \<Rightarrow> 1)"

definition restful_options :: "restful_args \<Rightarrow> request_context \<Rightarrow> find_options" where
  "restful_options args ctx =
     \<lparr>opt_where = map_option parse_where (arg_where args),
      opt_order = arg_order args,
      opt_limit = restful_limit args,
      opt_offset = restful_offset args,
      opt_dataloader = expected_options ctx\<rparr>"

text \<open>
  \<^verbatim>\<open>findAndCountAll\<close> is the store's; it answers a query with a rejection or with a
  count and rows.
\<close>

definition restful_resolve ::
  "(find_options \<Rightarrow> error + nat \<times> row list) \<Rightarrow> restful_args \<Rightarrow> request_context \<Rightarrow>
   error + envelope"
where
  "restful_resolve findAndCountAll args ctx =
     (case findAndCountAll (restful_options args ctx) of
        Inl e \<Rightarrow> Inl e
      | Inr (count, rows) \<Rightarrow>
          Inr \<lparr>info = \<lparr>total_count = count, pageSize = restful_limit args, page = restful_page args\<rparr>,
               results = rows\<rparr>)"

subsection \<open>Example calls\<close>

definition plain_context :: request_context where
  "plain_context = \<lparr>dataloaderContext = None, request = ''req''\<rparr>"

definition page_args :: "int option \<Rightarrow> int option \<Rightarrow> restful_args" where
  "page_args p s = \<lparr>arg_where = None, arg_order = None, arg_page = p, arg_pageSize = s\<rparr>"

definition empty_store :: "find_options \<Rightarrow> error + nat \<times> row list" where
  "empty_store opts = Inr (0, [])"

definition name_filter :: "(string \<times> jv) list" where
  "name_filter = [(''name'', JStr ''Ann%''), (''city'', JStr ''Oslo''), (''age'', JNum 30)]"

section \<open>The query root\<close>

text \<open>
  \<^verbatim>\<open>helper.getProperTypeName\<close> is not part of \<^verbatim>\<open>src/generator.js\<close>; the generator
  reads four names of what it returns, and the functions below take the helper as a
  parameter.
\<close>

record proper_names =
  upperFirst_singular :: string
  lowerFirst_singular :: string
  lowerFirst_plural :: string
  toUpperWithLodashes_singular :: string

text \<open>
  A field of the query root is one of the three generated fields of an entity, an inline
  override (a function wrapped into a list field, or any other value used as it is), or
  the object a discovered module exports. A module's export is kept as its
  \<^verbatim>\<open>name\<close> property and an opaque rest.
\<close>

record js_module =
  export_name :: "string option"
  export_rest :: string

datatype query_field =
    SingularField string
  | PluralField string
  | RestfulField string
  | WrappedFunction string string
  | InlineDescriptor string
  | ModuleField js_module

type_synonym query_fields = "string \<rightharpoonup> query_field"

record build_options =
  customsDirPath :: "string option"
  subscriptions :: bool

text \<open>
  What the generator reads of Node: the directory of the main module, its own directory,
  \<^verbatim>\<open>path.join\<close>, \<^verbatim>\<open>fs.existsSync\<close>, \<^verbatim>\<open>fs.readdirSync\<close> and \<^verbatim>\<open>require\<close>.
\<close>

record node_env =
  main_dirname :: string
  module_dirname :: string
  path_join :: "string \<Rightarrow> string \<Rightarrow> string"
  existsSync :: "string \<Rightarrow> bool"
  readdirSync :: "string \<Rightarrow> string list"
  require_module :: "string \<Rightarrow> js_module"

fun js_split :: "char \<Rightarrow> string \<Rightarrow> string list" where
  "js_split sep [] = [[]]"
| "js_split sep (c # cs) =
     (if c = sep then [] # js_split sep cs
      else (case js_split sep cs of
              [] \<Rightarrow> [[c]]
            | w # ws \<Rightarrow> (c # w) # ws))"

fun js_replace :: "string \<Rightarrow> string \<Rightarrow> string \<Rightarrow> string" where
  "js_replace pat rep [] = (if pat = [] then rep else [])"
| "js_replace pat rep (c # cs) =
     (if take (length pat) (c # cs) = pat then rep @ drop (length pat) (c # cs)
      else c # js_replace pat rep cs)"

definition slice_last3 :: "string \<Rightarrow> string" where
  "slice_last3 file = drop (length file - 3) file"

definition is_script :: "string \<Rightarrow> bool" where
  "is_script file = (slice_last3 file \<in> set [''.js'', ''.ts''])"

definition customs_path :: "node_env \<Rightarrow> string \<Rightarrow> string \<Rightarrow> string" where
  "customs_path env dir kind =
     (let customQueryPath = path_join env (main_dirname env) dir
      in if \<not> existsSync env (customQueryPath @ ''/'' @ kind)
         then path_join env
                (''/'' @ js_join ''/'' (take 5 (drop 1 (js_split CHR ''/'' (module_dirname env)))))
                dir
         else customQueryPath)"

definition named_module :: "string \<Rightarrow> js_module \<Rightarrow> js_module" where
  "named_module file objQuery =
     (if export_name objQuery = None \<or> export_name objQuery = Some []
      then objQuery\<lparr>export_name := Some (js_replace ''.ts'' [] (js_replace ''.js'' [] file))\<rparr>
      else objQuery)"

definition add_module :: "node_env \<Rightarrow> string \<Rightarrow> query_fields \<Rightarrow> string \<Rightarrow> query_fields" where
  "add_module env dir customs file =
     (let objQuery = named_module file (require_module env (dir @ ''/'' @ file))
      in customs(the (export_name objQuery) \<mapsto> ModuleField objQuery))"

definition discovered_customs ::
  "node_env \<Rightarrow> build_options \<Rightarrow> string \<Rightarrow> query_fields \<Rightarrow> query_fields"
where
  "discovered_customs env opts kind customs =
     (case customsDirPath opts of
        None \<Rightarrow> customs
      | Some dir \<Rightarrow>
          if dir = [] then customs
          else
            (let customQueryPath = customs_path env dir kind
             in if existsSync env (customQueryPath @ ''/'' @ kind)
                then foldl (add_module env (customQueryPath @ ''/'' @ kind)) customs
                       (filter is_script (readdirSync env (customQueryPath @ ''/'' @ kind)))
                else customs))"

definition inline_field :: "string \<Rightarrow> override \<Rightarrow> query_field" where
  "inline_field modelTypeName q =
     (case q of
        Function f \<Rightarrow> WrappedFunction modelTypeName f
      | Descriptor d \<Rightarrow> InlineDescriptor d)"

definition inline_customs :: "string \<Rightarrow> model \<Rightarrow> query_fields" where
  "inline_customs modelTypeName m =
     (case resolvers_query m of
        None \<Rightarrow> Map.empty
      | Some overrides \<Rightarrow>
          foldl (\<lambda>customs (key, q). customs(key \<mapsto> inline_field modelTypeName q))
            Map.empty overrides)"

definition generated_fields :: "proper_names \<Rightarrow> string \<Rightarrow> query_fields" where
  "generated_fields names modelTypeName =
     [lowerFirst_singular names \<mapsto> SingularField modelTypeName,
      lowerFirst_plural names \<mapsto> PluralField modelTypeName,
      lowerFirst_singular names @ ''Restful'' \<mapsto> RestfulField modelTypeName]"

text \<open>
  One step of the \<^verbatim>\<open>reduce\<close> over the names of the output types:
  \<^verbatim>\<open>Object.assign(fields, { ...generated }, customs)\<close>, where \<^verbatim>\<open>customs\<close> holds the
  inline overrides and then, written over them, the discovered modules. Reading the
  options of an undefined model throws.
\<close>

definition query_fields_step ::
  "(model \<Rightarrow> proper_names) \<Rightarrow> node_env \<Rightarrow> build_options \<Rightarrow> models \<Rightarrow>
   query_fields \<Rightarrow> string \<Rightarrow> error + query_fields"
where
  "query_fields_step getProperTypeName env opts ms flds modelTypeName =
     (case map_of ms modelTypeName of
        None \<Rightarrow> Inl TypeError
      | Some m \<Rightarrow>
          (let customs = discovered_customs env opts ''query'' (inline_customs modelTypeName m)
           in Inr (flds ++ generated_fields (getProperTypeName m) modelTypeName ++ customs)))"

fun reduce_fields ::
  "(query_fields \<Rightarrow> string \<Rightarrow> error + query_fields) \<Rightarrow> query_fields \<Rightarrow> string list \<Rightarrow>
   error + query_fields"
where
  "reduce_fields step flds [] = Inr flds"
| "reduce_fields step flds (modelTypeName # rest) =
     (case step flds modelTypeName of
        Inl e \<Rightarrow> Inl e
      | Inr flds' \<Rightarrow> reduce_fields step flds' rest)"

definition generateQueryRootType ::
  "(model \<Rightarrow> proper_names) \<Rightarrow> node_env \<Rightarrow> build_options \<Rightarrow> models \<Rightarrow> string list \<Rightarrow>
   error + query_fields"
where
  "generateQueryRootType getProperTypeName env opts ms outputTypeNames =
     reduce_fields (query_fields_step getProperTypeName env opts ms) Map.empty outputTypeNames"

text \<open>The modules the directory contributes, by the name each is stored under.\<close>

definition directory_customs :: "node_env \<Rightarrow> build_options \<Rightarrow> query_fields" where
  "directory_customs env opts = discovered_customs env opts ''query'' Map.empty"

text \<open>The field a built root holds under a name.\<close>

definition field_named :: "error + query_fields \<Rightarrow> string \<Rightarrow> query_field option" where
  "field_named built x = (case built of Inl e \<Rightarrow> None | Inr flds \<Rightarrow> flds x)"

subsection \<open>Example build\<close>

text \<open>
  An entity \<open>x\<close> with inline query overrides named \<open>x\<close>, \<open>xs\<close> and \<open>top\<close>; a
  customs directory whose \<^verbatim>\<open>query\<close> folder holds \<^verbatim>\<open>x.js\<close>, exporting an object with
  no name, and a file that is not a script. \<open>plain_names\<close> stands in for the helper.
\<close>

definition plain_names :: "model \<Rightarrow> proper_names" where
  "plain_names m =
     \<lparr>upperFirst_singular = model_name m, lowerFirst_singular = model_name m,
      lowerFirst_plural = model_name m @ ''s'',
      toUpperWithLodashes_singular = model_name m\<rparr>"

definition entity_x :: model where
  "entity_x =
     \<lparr>model_name = ''x'', rawAttributes = [id_attribute], associations = [],
      primaryKeyAttributes = [''id''], options_name_plural = Some ''xs'',
      resolvers_query =
        Some [(''x'', Descriptor ''inline x''), (''xs'', Descriptor ''inline xs''),
              (''top'', Function ''topFn'')]\<rparr>"

definition customs_env :: node_env where
  "customs_env =
     \<lparr>main_dirname = ''/app'', module_dirname = ''/app/node_modules/magic-graph/src'',
      path_join = (\<lambda>a b. a @ ''/'' @ b),
      existsSync = (\<lambda>p. p = ''/app/customs/query''),
      readdirSync = (\<lambda>p. if p = ''/app/customs/query'' then [''x.js'', ''notes.md''] else []),
      require_module = (\<lambda>p. \<lparr>export_name = None, export_rest = p\<rparr>)\<rparr>"

definition customs_options :: build_options where
  "customs_options = \<lparr>customsDirPath = Some ''customs'', subscriptions = False\<rparr>"

section \<open>The type builder\<close>

text \<open>
  A field of a generated type comes from an attribute or from an association. The type
  of an association field is \<^verbatim>\<open>types[relation.target.name]\<close>, or
  \<^verbatim>\<open>new GraphQLList(types[relation.target.name])\<close> for \<^verbatim>\<open>BelongsToMany\<close> and
  \<^verbatim>\<open>HasMany\<close>; \<open>types\<close> maps an entity name to the name of its generated type.
  \<^verbatim>\<open>GraphQLList\<close> throws when it is given \<^verbatim>\<open>undefined\<close>, so the loop over the
  associations stops at the first list association whose target has no type. An output
  field also carries \<^verbatim>\<open>resolver(relation)\<close>.
\<close>

datatype type_ref = TypeOf "string option" | ListOf string

datatype type_field =
    AttributeField attribute bool
  | AssociationField type_ref "relation option"

type_synonym type_fields = "string \<rightharpoonup> type_field"

record graphql_type =
  type_name :: string
  type_fields :: "error + type_fields"
  type_description :: string
  type_is_input :: bool

fun association_fields ::
  "(string \<times> relation) list \<Rightarrow> (string \<rightharpoonup> string) \<Rightarrow> bool \<Rightarrow> type_fields \<Rightarrow>
   error + type_fields"
where
  "association_fields [] types isInput flds = Inr flds"
| "association_fields ((associationName, rel) # rest) types isInput flds =
     (if associationType rel = ''BelongsToMany'' \<or> associationType rel = ''HasMany'' then
        (case types (target_name rel) of
           None \<Rightarrow> Inl InvalidType
         | Some t \<Rightarrow>
             association_fields rest types isInput
               (flds(associationName \<mapsto>
                  AssociationField (ListOf t) (if isInput then None else Some rel))))
      else
        association_fields rest types isInput
          (flds(associationName \<mapsto>
             AssociationField (TypeOf (types (target_name rel)))
               (if isInput then None else Some rel))))"

definition generateAssociationFields ::
  "(string \<times> relation) list \<Rightarrow> (string \<rightharpoonup> string) \<Rightarrow> bool \<Rightarrow> error + type_fields"
where
  "generateAssociationFields assocs types isInput =
     association_fields assocs types isInput Map.empty"

text \<open>
  Modelled from the spec: \<^verbatim>\<open>attributeFields\<close> is the function of graphql-sequelize, a
  dependency whose code is not under \<^verbatim>\<open>src/\<close>. It gives one field per scalar attribute
  of the model, leaving out the attributes named in \<^verbatim>\<open>exclude\<close>; the field keeps the
  attribute and the \<^verbatim>\<open>allowNull\<close> option it was built with.
\<close>

definition attributeFields :: "model \<Rightarrow> string list \<Rightarrow> bool \<Rightarrow> type_fields" where
  "attributeFields m exclude allowNull =
     map_of
       (map (\<lambda>(key, a). (key, AttributeField a allowNull))
          (filter (\<lambda>(key, a). key \<notin> set exclude) (rawAttributes m)))"

text \<open>
  \<^verbatim>\<open>generateGraphQLType(model, types, isInput)\<close>. The \<^verbatim>\<open>fields\<close> of the type are a
  thunk; \<open>type_fields\<close> is what evaluating it gives, an error when
  \<^verbatim>\<open>generateAssociationFields\<close> throws and otherwise
  \<^verbatim>\<open>Object.assign(attributeFields(model, { exclude: ['contrasena'], allowNull: !!isInput, cache }), generateAssociationFields(model.associations, types, isInput))\<close>.
\<close>

definition generateGraphQLType ::
  "(model \<Rightarrow> proper_names) \<Rightarrow> model \<Rightarrow> (string \<rightharpoonup> string) \<Rightarrow> bool \<Rightarrow> graphql_type"
where
  "generateGraphQLType getProperTypeName m types isInput =
     (let typeName = upperFirst_singular (getProperTypeName m)
      in \<lparr>type_name = (if isInput then typeName @ ''Input'' else typeName),
          type_fields =
            (case generateAssociationFields (associations m) types isInput of
               Inl e \<Rightarrow> Inl e
             | Inr associationFields \<Rightarrow>
                 Inr (attributeFields m [''contrasena''] isInput ++ associationFields)),
          type_description =
            ''The name of the model is '' @ model_name m @
            '', this comment is generated automatically.'',
          type_is_input = isInput\<rparr>)"

subsection \<open>Example entity with a credential attribute\<close>

definition entity_user :: model where
  "entity_user =
     \<lparr>model_name = ''user'',
      rawAttributes =
        [id_attribute,
         (''email'', \<lparr>attr_type = ''STRING'', attr_allowNull = False, attr_primaryKey = False\<rparr>),
         (''contrasena'', \<lparr>attr_type = ''STRING'', attr_allowNull = False, attr_primaryKey = False\<rparr>)],
      associations = [],
      primaryKeyAttributes = [''id''], options_name_plural = Some ''users'',
      resolvers_query = None\<rparr>"

section \<open>The mutation resolvers\<close>

text \<open>
  A resolver publishes on \<^verbatim>\<open>myPubSub\<close>, the bus of the options or the process-wide
  one; the events it publishes are kept in order. The payload of an event is the object
  \<^verbatim>\<open>{ [payload_key]: payload }\<close>.
\<close>

datatype payload = RowPayload row | KeyPayload "jv option"

record event =
  topic :: string
  payload_key :: string
  payload :: payload

text \<open>
  The store is the ORM's. Each of its operations is a parameter of the resolver that
  calls it: given the call and the state of the store it answers with a rejection or a
  value, and a new state. The operations are started in the order in which the resolver
  calls them.
\<close>

subsection \<open>add\<close>

text \<open>
  \<^verbatim>\<open>models[inputTypeName].create(args[inputTypeName], { include: includeArrayModels })\<close>,
  then, with subscriptions on, one \<^verbatim>\<open>publish\<close>.
\<close>

definition add_resolve ::
  "(row option \<Rightarrow> include_entry list \<Rightarrow> 'st \<Rightarrow> (error + row) \<times> 'st) \<Rightarrow>
   build_options \<Rightarrow> proper_names \<Rightarrow> include_entry list \<Rightarrow> row option \<Rightarrow> 'st \<Rightarrow>
   (error + row) \<times> event list \<times> 'st"
where
  "add_resolve create opts names includeArrayModels input st =
     (case create input includeArrayModels st of
        (Inl e, st') \<Rightarrow> (Inl e, [], st')
      | (Inr newObject, st') \<Rightarrow>
          (Inr newObject,
           (if subscriptions opts
            then [\<lparr>topic = toUpperWithLodashes_singular names @ ''_ADDED'',
                   payload_key = lowerFirst_singular names @ ''Added'',
                   payload = RowPayload newObject\<rparr>]
            else []),
           st'))"

subsection \<open>delete\<close>

text \<open>
  \<^verbatim>\<open>models[inputTypeName].destroy({ where })\<close>, where \<^verbatim>\<open>where\<close> is the arguments
  object, and a \<^verbatim>\<open>publish\<close> of \<^verbatim>\<open>where[key]\<close> when rows were deleted and
  subscriptions are on.
\<close>

definition delete_resolve ::
  "((string \<times> jv) list \<Rightarrow> 'st \<Rightarrow> (error + nat) \<times> 'st) \<Rightarrow>
   build_options \<Rightarrow> proper_names \<Rightarrow> string \<Rightarrow> (string \<times> jv) list \<Rightarrow> 'st \<Rightarrow>
   (error + nat) \<times> event list \<times> 'st"
where
  "delete_resolve destroy opts names key whr st =
     (case destroy whr st of
        (Inl e, st') \<Rightarrow> (Inl e, [], st')
      | (Inr deletedRows, st') \<Rightarrow>
          (Inr deletedRows,
           (if 0 < deletedRows \<and> subscriptions opts
            then [\<lparr>topic = toUpperWithLodashes_singular names @ ''_DELETED'',
                   payload_key = lowerFirst_singular names @ ''Deleted'',
                   payload = KeyPayload (map_of whr key)\<rparr>]
            else []),
           st'))"

text \<open>
  Modelled from the spec: the store's delete by primary key, which is the ORM's and not
  under \<^verbatim>\<open>src/\<close>. A table holds at most one row per primary key value; \<^verbatim>\<open>destroy\<close>
  removes the row whose primary key is the value the condition gives for the key
  attribute, and answers with the number of rows it removed.
\<close>

type_synonym table = "jv \<rightharpoonup> row"

definition table_destroy ::
  "string \<Rightarrow> (string \<times> jv) list \<Rightarrow> table \<Rightarrow> (error + nat) \<times> table"
where
  "table_destroy key whr t =
     (case map_of whr key of
        None \<Rightarrow> (Inr 0, t)
      | Some v \<Rightarrow> (case t v of None \<Rightarrow> (Inr 0, t) | Some r \<Rightarrow> (Inr 1, t(v := None))))"

subsection \<open>update\<close>

text \<open>
  The resolver finds the record, and in the callback pushes one \<^verbatim>\<open>helper.upsertArray\<close>
  promise per entry of \<^verbatim>\<open>includeArrayModels\<close> whose model has a plural name that is a
  key of the input, then the promise of \<^verbatim>\<open>object2Update.update\<close>, and waits for
  \<^verbatim>\<open>Promise.all\<close> of them before it publishes and fetches the record again. The
  update resolves to the record itself, changed in place, whose data values the event
  carries. The outcome keeps every promise pushed with how it settled.
  \<^verbatim>\<open>helper.upsertArray\<close> is not part of \<^verbatim>\<open>src/generator.js\<close> and is a parameter.
\<close>

record upsert_call =
  uc_plural :: string
  uc_items :: "jv option"
  uc_parent :: "row option"
  uc_foreign_key :: string
  uc_parent_key :: "jv option"
  uc_include :: "include_entry list"

record orm_options =
  oo_where :: "(string \<times> jv option) list"
  oo_include :: "include_entry list"
  oo_dataloader :: loader

datatype issued = UpsertArray upsert_call | Update row row

record 'st update_outcome =
  u_result :: "error + row option"
  u_published :: "event list"
  u_settled :: "(issued \<times> (error + unit)) list"
  u_store :: 'st

definition upsert_call_of ::
  "string \<Rightarrow> string \<Rightarrow> row \<Rightarrow> row option \<Rightarrow> string \<Rightarrow> include_entry \<Rightarrow> upsert_call"
where
  "upsert_call_of inputTypeName key input object2Update plural m =
     \<lparr>uc_plural = plural, uc_items = map_of input plural, uc_parent = object2Update,
      uc_foreign_key = inputTypeName @ ''_id'', uc_parent_key = map_of input key,
      uc_include = entry_include m\<rparr>"

text \<open>
  The \<^verbatim>\<open>forEach\<close> over \<^verbatim>\<open>includeArrayModels\<close>: the promises pushed so far, each with
  how it settles, and the error thrown on reading \<^verbatim>\<open>.options\<close> of an undefined model.
\<close>

fun push_upserts ::
  "(upsert_call \<Rightarrow> 'st \<Rightarrow> (error + unit) \<times> 'st) \<Rightarrow> string \<Rightarrow> string \<Rightarrow> row \<Rightarrow>
   row option \<Rightarrow> include_entry list \<Rightarrow> (issued \<times> (error + unit)) list \<Rightarrow> 'st \<Rightarrow>
   error option \<times> (issued \<times> (error + unit)) list \<times> 'st"
where
  "push_upserts upsertArray inputTypeName key input object2Update [] promises st =
     (None, promises, st)"
| "push_upserts upsertArray inputTypeName key input object2Update (m # rest) promises st =
     (case entry_model m of
        None \<Rightarrow> (Some TypeError, promises, st)
      | Some mdl \<Rightarrow>
          (case options_name_plural mdl of
             None \<Rightarrow>
               push_upserts upsertArray inputTypeName key input object2Update rest promises st
           | Some plural \<Rightarrow>
               if plural \<noteq> [] \<and> plural \<in> fst ` set input then
                 (let call = upsert_call_of inputTypeName key input object2Update plural m;
                      (settles, st') = upsertArray call st
                  in push_upserts upsertArray inputTypeName key input object2Update rest
                       (promises @ [(UpsertArray call, settles)]) st')
               else
                 push_upserts upsertArray inputTypeName key input object2Update rest promises st))"

text \<open>
  \<^verbatim>\<open>Promise.all\<close> rejects when one of the promises rejects, with the rejection that
  settles first; the model reports the first rejection in the order of the array.
\<close>

fun promise_all :: "(error + 'a) list \<Rightarrow> error + 'a list" where
  "promise_all [] = Inr []"
| "promise_all (Inl e # ps) = Inl e"
| "promise_all (Inr v # ps) = (case promise_all ps of Inl e \<Rightarrow> Inl e | Inr vs \<Rightarrow> Inr (v # vs))"

definition update_resolve ::
  "(orm_options \<Rightarrow> 'st \<Rightarrow> (error + row option) \<times> 'st) \<Rightarrow>
   (upsert_call \<Rightarrow> 'st \<Rightarrow> (error + unit) \<times> 'st) \<Rightarrow>
   (row \<Rightarrow> row \<Rightarrow> 'st \<Rightarrow> (error + row) \<times> 'st) \<Rightarrow>
   ((string \<times> jv option) list \<Rightarrow> 'st \<Rightarrow> (error + row option) \<times> 'st) \<Rightarrow>
   build_options \<Rightarrow> proper_names \<Rightarrow> string \<Rightarrow> string \<Rightarrow> include_entry list \<Rightarrow>
   row option \<Rightarrow> request_context \<Rightarrow> 'st \<Rightarrow> 'st update_outcome"
where
  "update_resolve findOne upsertArray update resolver opts names inputTypeName key
     includeArrayModels input ctx st =
     (case input of
        None \<Rightarrow> \<lparr>u_result = Inl TypeError, u_published = [], u_settled = [], u_store = st\<rparr>
      | Some inp \<Rightarrow>
          (let ormOptions =
                 \<lparr>oo_where = [(key, map_of inp key)], oo_include = includeArrayModels,
                  oo_dataloader = expected_options ctx\<rparr>
           in case findOne ormOptions st of
                (Inl e, st1) \<Rightarrow>
                  \<lparr>u_result = Inl e, u_published = [], u_settled = [], u_store = st1\<rparr>
              | (Inr object2Update, st1) \<Rightarrow>
                  (case push_upserts upsertArray inputTypeName key inp object2Update
                          includeArrayModels [] st1 of
                     (Some e, promises, st2) \<Rightarrow>
                       \<lparr>u_result = Inl e, u_published = [], u_settled = promises, u_store = st2\<rparr>
                   | (None, promises, st2) \<Rightarrow>
                       (case object2Update of
                          None \<Rightarrow>
                            \<lparr>u_result = Inl TypeError, u_published = [], u_settled = promises,
                             u_store = st2\<rparr>
                        | Some obj \<Rightarrow>
                            (case update obj inp st2 of
                               (updated, st3) \<Rightarrow>
                                 (let settled =
                                        promises @ [(Update obj inp, map_sum id (\<lambda>r. ()) updated)]
                                  in case promise_all (map snd promises) of
                                       Inl e \<Rightarrow>
                                         \<lparr>u_result = Inl e, u_published = [],
                                          u_settled = settled, u_store = st3\<rparr>
                                     | Inr ups \<Rightarrow>
                                         (case updated of
                                            Inl e \<Rightarrow>
                                              \<lparr>u_result = Inl e, u_published = [],
                                               u_settled = settled, u_store = st3\<rparr>
                                          | Inr obj' \<Rightarrow>
                                              (case resolver (oo_where ormOptions) st3 of
                                                 (fetched, st4) \<Rightarrow>
                                                   \<lparr>u_result = fetched,
                                                    u_published =
                                                      (if subscriptions opts
                                                       then [\<lparr>topic =
                                                                 toUpperWithLodashes_singular names @
                                                                 ''_UPDATED'',
                                                               payload_key =
                                                                 lowerFirst_singular names @ ''Updated'',
                                                               payload = RowPayload obj'\<rparr>]
                                                       else []),
                                                    u_settled = settled,
                                                    u_store = st4\<rparr>))))))))"

text \<open>
  The upserts the callback asks of the store: one per entry whose model has a plural
  name that is a key of the input, with the record found (or null) as parent.
\<close>

definition wants_upsert :: "row \<Rightarrow> include_entry \<Rightarrow> bool" where
  "wants_upsert input m =
     (case entry_model m of
        None \<Rightarrow> False
      | Some mdl \<Rightarrow>
          (case options_name_plural mdl of
             None \<Rightarrow> False
           | Some plural \<Rightarrow> plural \<noteq> [] \<and> plural \<in> fst ` set input))"

definition upsert_calls ::
  "string \<Rightarrow> string \<Rightarrow> row \<Rightarrow> row option \<Rightarrow> include_entry list \<Rightarrow> upsert_call list"
where
  "upsert_calls inputTypeName key input object2Update includeArrayModels =
     map (\<lambda>m. upsert_call_of inputTypeName key input object2Update
                 (the (options_name_plural (the (entry_model m)))) m)
       (filter (wants_upsert input) includeArrayModels)"

text \<open>
  What the store answers to a sequence of calls put to it one after the other, and the
  state it is left in.
\<close>

fun settle_all :: "('c \<Rightarrow> 'st \<Rightarrow> 'r \<times> 'st) \<Rightarrow> 'c list \<Rightarrow> 'st \<Rightarrow> 'r list \<times> 'st" where
  "settle_all f [] st = ([], st)"
| "settle_all f (c # cs) st =
     (case f c st of
        (r, st') \<Rightarrow> (case settle_all f cs st' of (rs, st'') \<Rightarrow> (r # rs, st'')))"

subsection \<open>Example stores\<close>

text \<open>
  A table with the row of key 1, and a store that creates records numbered by its
  state. For the update, an entity \<open>P\<close> that has many \<open>B\<close> and has many \<open>T\<close>, and a
  store whose state is the list of the operations put to it: \<open>tracing_findOne\<close>
  answers with the record given or with null, \<open>tracing_upsertArray\<close> rejects the
  upsert of the collection named and fulfils every other, the update and the fetch
  succeed.
\<close>

definition one_row_table :: table where
  "one_row_table = [JNum 1 \<mapsto> [(''id'', JNum 1), (''email'', JStr ''a@b.c'')]]"

definition subscribed :: build_options where
  "subscribed = \<lparr>customsDirPath = None, subscriptions = True\<rparr>"

definition unsubscribed :: build_options where
  "unsubscribed = \<lparr>customsDirPath = None, subscriptions = False\<rparr>"

definition counting_create :: "row option \<Rightarrow> include_entry list \<Rightarrow> nat \<Rightarrow> (error + row) \<times> nat" where
  "counting_create input inc n =
     (case input of
        None \<Rightarrow> (Inl (Rejected ''no values''), n)
      | Some values \<Rightarrow> (Inr ((''id'', JNum (int n)) # values), Suc n))"

definition entity_P :: model where
  "entity_P =
     \<lparr>model_name = ''P'', rawAttributes = [id_attribute],
      associations =
        [(''bs'', \<lparr>associationType = ''HasMany'', target_name = ''B''\<rparr>),
         (''ts'', \<lparr>associationType = ''HasMany'', target_name = ''T''\<rparr>)],
      primaryKeyAttributes = [''id''], options_name_plural = Some ''ps'',
      resolvers_query = None\<rparr>"

definition P_models :: models where
  "P_models = [(''P'', entity_P), (''B'', entity_B), (''C'', entity_C), (''T'', entity_T)]"

definition P_includes :: "include_entry list" where
  "P_includes =
     [IncludeEntry (Some entity_B) [IncludeEntry (Some entity_C) []],
      IncludeEntry (Some entity_T) []]"

definition found_record :: row where
  "found_record = [(''id'', JNum 7), (''title'', JStr ''old'')]"

definition update_input :: row where
  "update_input =
     [(''id'', JNum 7), (''title'', JStr ''new''), (''bs'', JArr []), (''ts'', JArr [])]"

definition tracing_findOne ::
  "row option \<Rightarrow> orm_options \<Rightarrow> string list \<Rightarrow> (error + row option) \<times> string list"
where
  "tracing_findOne found q tr = (Inr found, tr @ [''findOne''])"

definition tracing_upsertArray ::
  "string \<Rightarrow> upsert_call \<Rightarrow> string list \<Rightarrow> (error + unit) \<times> string list"
where
  "tracing_upsertArray bad call tr =
     ((if uc_plural call = bad then Inl (Rejected bad) else Inr ()),
      tr @ [''upsertArray '' @ uc_plural call])"

definition tracing_update :: "row \<Rightarrow> row \<Rightarrow> string list \<Rightarrow> (error + row) \<times> string list" where
  "tracing_update obj values tr = (Inr values, tr @ [''update''])"

definition tracing_resolver ::
  "(string \<times> jv option) list \<Rightarrow> string list \<Rightarrow> (error + row option) \<times> string list"
where
  "tracing_resolver whr tr = (Inr (Some found_record), tr @ [''resolver''])"

definition flaky_update :: "string list update_outcome" where
  "flaky_update =
     update_resolve (tracing_findOne (Some found_record)) (tracing_upsertArray ''bs'')
       tracing_update tracing_resolver subscribed (plain_names entity_P) ''P'' ''id''
       P_includes (Some update_input) plain_context []"

definition steady_update :: "string list update_outcome" where
  "steady_update =
     update_resolve (tracing_findOne (Some found_record)) (tracing_upsertArray [])
       tracing_update tracing_resolver subscribed (plain_names entity_P) ''P'' ''id''
       P_includes (Some update_input) plain_context []"

definition missing_update :: "string list update_outcome" where
  "missing_update =
     update_resolve (tracing_findOne None) (tracing_upsertArray [])
       tracing_update tracing_resolver subscribed (plain_names entity_P) ''P'' ''id''
       P_includes (Some update_input) plain_context []"

section \<open>Properties of the deep associations\<close>

lemma collect_includes_mono:
  assumes "collect_includes f ms rels acc = Some r"
    and "\<And>t y. f t = Some y \<Longrightarrow> g t = Some y"
  shows "collect_includes g ms rels acc = Some r"
  using assms(1)
proof (induction rels arbitrary: acc)
  case Nil
  then show ?case by simp
next
  case (Cons p rest)
  obtain associationName rel where p: "p = (associationName, rel)" by (cases p)
  show ?case
  proof (cases "associationType rel = ''HasMany''")
    case False
    with Cons p show ?thesis by simp
  next
    case True
    show ?thesis
    proof (cases "f (target_name rel)")
      case None
      with Cons.prems p True show ?thesis by simp
    next
      case (Some y)
      then have g: "g (target_name rel) = Some y" by (rule assms(2))
      show ?thesis
      proof (cases y)
        case (Inl e)
        with Cons.prems p True Some g show ?thesis by auto
      next
        case (Inr inc)
        with Cons.prems p True Some
        have "collect_includes f ms rest
                (acc @ [IncludeEntry (map_of ms (target_name rel)) inc]) = Some r"
          by simp
        then have "collect_includes g ms rest
                (acc @ [IncludeEntry (map_of ms (target_name rel)) inc]) = Some r"
          by (rule Cons.IH)
        with p True g Inr show ?thesis by simp
      qed
    qed
  qed
qed

lemma getDeepAssociations_mono:
  "getDeepAssociations n a ms = Some r \<Longrightarrow> n \<le> k \<Longrightarrow> getDeepAssociations k a ms = Some r"
proof (induction n arbitrary: a k r)
  case 0
  then show ?case by simp
next
  case (Suc n)
  from Suc.prems(2) obtain k' where k: "k = Suc k'" and le: "n \<le> k'"
    by (cases k) auto
  show ?case
  proof (cases "map_of ms a")
    case None
    with Suc.prems(1) k show ?thesis by simp
  next
    case (Some m)
    with Suc.prems(1)
    have "collect_includes (\<lambda>t. getDeepAssociations n t ms) ms (associations m) [] = Some r"
      by simp
    then have "collect_includes (\<lambda>t. getDeepAssociations k' t ms) ms (associations m) [] = Some r"
      by (rule collect_includes_mono) (rule Suc.IH [OF _ le])
    with Some k show ?thesis by simp
  qed
qed

lemma collect_includes_total:
  "\<forall>rel \<in> set (filter (\<lambda>rel. associationType rel = ''HasMany'') (map snd rels)).
      \<exists>y. f (target_name rel) = Some y
   \<Longrightarrow> \<exists>r. collect_includes f ms rels acc = Some r"
  by (induction f ms rels acc rule: collect_includes.induct)
     (auto split: option.split sum.split)

lemma collect_includes_Inl:
  "collect_includes f ms rels acc = Some (Inl e) \<Longrightarrow>
   \<exists>rel \<in> set (filter (\<lambda>rel. associationType rel = ''HasMany'') (map snd rels)).
      f (target_name rel) = Some (Inl e)"
  by (induction f ms rels acc rule: collect_includes.induct)
     (auto split: option.splits sum.splits if_splits)

lemma collect_includes_Inr:
  "collect_includes f ms rels acc = Some (Inr cs) \<Longrightarrow>
   \<exists>new. cs = acc @ new \<and>
     list_all2 (\<lambda>rel c. entry_model c = map_of ms (target_name rel) \<and>
                 f (target_name rel) = Some (Inr (entry_include c)))
       (filter (\<lambda>rel. associationType rel = ''HasMany'') (map snd rels)) new"
  by (induction f ms rels acc rule: collect_includes.induct)
     (auto split: option.splits sum.splits if_splits)

lemma uniform_fuel:
  "\<forall>t \<in> set ts. \<exists>n r. getDeepAssociations n t ms = Some r \<Longrightarrow>
   \<exists>N. \<forall>t \<in> set ts. \<exists>r. getDeepAssociations N t ms = Some r"
proof (induction ts)
  case Nil
  then show ?case by simp
next
  case (Cons t ts)
  then obtain N where N: "\<forall>t \<in> set ts. \<exists>r. getDeepAssociations N t ms = Some r"
    by auto
  from Cons.prems obtain n r where n: "getDeepAssociations n t ms = Some r"
    by auto
  have "\<forall>u \<in> set (t # ts). \<exists>r. getDeepAssociations (max n N) u ms = Some r"
    using N n getDeepAssociations_mono [of _ _ ms _ "max n N"]
    by (metis max.cobounded1 max.cobounded2 set_ConsD)
  then show ?case ..
qed

lemma hasMany_edge_source: "(a, b) \<in> hasMany_edges ms \<Longrightarrow> a \<in> fst ` set ms"
proof -
  assume "(a, b) \<in> hasMany_edges ms"
  then obtain m where "map_of ms a = Some m"
    by (cases "map_of ms a") (auto simp: hasMany_edges_def hasMany_targets_def)
  then have "(a, m) \<in> set ms" by (rule map_of_SomeD)
  then show ?thesis by force
qed

lemma finite_hasMany_edges: "finite (hasMany_edges ms)"
proof -
  have "hasMany_edges ms \<subseteq> (\<Union>a \<in> fst ` set ms. {a} \<times> set (hasMany_targets ms a))"
  proof
    fix e assume e: "e \<in> hasMany_edges ms"
    obtain a b where ab: "e = (a, b)" by (cases e)
    from e ab have "a \<in> fst ` set ms" by (simp add: hasMany_edge_source)
    moreover from e ab have "b \<in> set (hasMany_targets ms a)"
      by (simp add: hasMany_edges_def)
    ultimately show "e \<in> (\<Union>a \<in> fst ` set ms. {a} \<times> set (hasMany_targets ms a))"
      using ab by blast
  qed
  then show ?thesis by (rule finite_subset) simp
qed

lemma wf_reachable_edges:
  assumes "acyclic_from ms a"
  shows "wf {(b, c). (a, c) \<in> (hasMany_edges ms)\<^sup>* \<and> (c, b) \<in> hasMany_edges ms}"
    (is "wf ?R")
proof (rule finite_acyclic_wf)
  have "?R \<subseteq> (hasMany_edges ms)\<inverse>" by auto
  then show "finite ?R"
    by (rule finite_subset) (simp add: finite_hasMany_edges)
  have rev_path: "(y, x) \<in> (hasMany_edges ms)\<^sup>+ \<and> (a, y) \<in> (hasMany_edges ms)\<^sup>*"
    if "(x, y) \<in> ?R\<^sup>+" for x y
    using that
  proof (induction rule: trancl_induct)
    case (base y)
    then show ?case by auto
  next
    case (step y z)
    then show ?case by (auto intro: trancl_into_trancl2)
  qed
  show "acyclic ?R"
  proof (rule acyclicI, rule allI, rule notI)
    fix x assume "(x, x) \<in> ?R\<^sup>+"
    then have "(x, x) \<in> (hasMany_edges ms)\<^sup>+ \<and> (a, x) \<in> (hasMany_edges ms)\<^sup>*"
      by (rule rev_path)
    with assms show False unfolding acyclic_from_def by blast
  qed
qed

lemma getDeepAssociations_terminates:
  assumes "acyclic_from ms a"
  shows "\<exists>n r. getDeepAssociations n a ms = Some r"
proof -
  let ?E = "hasMany_edges ms"
  let ?R = "{(b, c). (a, c) \<in> ?E\<^sup>* \<and> (c, b) \<in> ?E}"
  have "wf ?R" using assms by (rule wf_reachable_edges)
  then have "(a, x) \<in> ?E\<^sup>* \<longrightarrow> (\<exists>n r. getDeepAssociations n x ms = Some r)" for x
  proof (induction x rule: wf_induct_rule)
    case (less x)
    show ?case
    proof
      assume reach: "(a, x) \<in> ?E\<^sup>*"
      show "\<exists>n r. getDeepAssociations n x ms = Some r"
      proof (cases "map_of ms x")
        case None
        then have "getDeepAssociations (Suc 0) x ms = Some (Inl TypeError)" by simp
        then show ?thesis by blast
      next
        case (Some m)
        have "\<forall>t \<in> set (hasMany_targets ms x). \<exists>n r. getDeepAssociations n t ms = Some r"
        proof
          fix t assume "t \<in> set (hasMany_targets ms x)"
          then have e: "(x, t) \<in> ?E" by (simp add: hasMany_edges_def)
          with reach have "(t, x) \<in> ?R" and "(a, t) \<in> ?E\<^sup>*" by auto
          then show "\<exists>n r. getDeepAssociations n t ms = Some r"
            using less.IH by blast
        qed
        then obtain N where
          N: "\<forall>t \<in> set (hasMany_targets ms x). \<exists>r. getDeepAssociations N t ms = Some r"
          using uniform_fuel by blast
        have "\<exists>r. collect_includes (\<lambda>t. getDeepAssociations N t ms) ms (associations m) [] = Some r"
          using N Some
          by (intro collect_includes_total) (simp add: hasMany_targets_def hasMany_relations_def)
        then have "\<exists>r. getDeepAssociations (Suc N) x ms = Some r"
          using Some by simp
        then show ?thesis by blast
      qed
    qed
  qed
  then show ?thesis by blast
qed

lemma getDeepAssociations_Inl:
  "getDeepAssociations n a ms = Some (Inl e) \<Longrightarrow>
   \<exists>b. (a, b) \<in> (hasMany_edges ms)\<^sup>* \<and> map_of ms b = None"
proof (induction n arbitrary: a)
  case 0
  then show ?case by simp
next
  case (Suc n)
  show ?case
  proof (cases "map_of ms a")
    case None
    then show ?thesis by blast
  next
    case (Some m)
    with Suc.prems
    have "collect_includes (\<lambda>t. getDeepAssociations n t ms) ms (associations m) [] = Some (Inl e)"
      by simp
    then obtain rel where rel: "rel \<in> set (hasMany_relations m)"
      and t: "getDeepAssociations n (target_name rel) ms = Some (Inl e)"
      unfolding hasMany_relations_def by (blast dest: collect_includes_Inl)
    from t obtain b where b: "(target_name rel, b) \<in> (hasMany_edges ms)\<^sup>*" "map_of ms b = None"
      using Suc.IH by blast
    from rel Some have "(a, target_name rel) \<in> hasMany_edges ms"
      by (simp add: hasMany_edges_def hasMany_targets_def)
    with b show ?thesis by (blast intro: converse_rtrancl_into_rtrancl)
  qed
qed

lemma getDeepAssociations_returns:
  assumes "acyclic_from ms a" and "closed_from ms a"
  shows "\<exists>n cs. getDeepAssociations n a ms = Some (Inr cs)"
proof -
  from assms(1) obtain n r where r: "getDeepAssociations n a ms = Some r"
    using getDeepAssociations_terminates by blast
  show ?thesis
  proof (cases r)
    case (Inl e)
    with r have "\<exists>b. (a, b) \<in> (hasMany_edges ms)\<^sup>* \<and> map_of ms b = None"
      by (auto dest: getDeepAssociations_Inl)
    with assms(2) show ?thesis unfolding closed_from_def by blast
  next
    case (Inr cs)
    with r show ?thesis by blast
  qed
qed

lemma getDeepAssociations_Inr_defined:
  "getDeepAssociations n a ms = Some (Inr cs) \<Longrightarrow> map_of ms a \<noteq> None"
  by (cases n) (auto split: option.splits)

lemma getDeepAssociations_shape:
  assumes "getDeepAssociations n a ms = Some (Inr cs)"
  shows "\<exists>m. map_of ms a = Some m \<and> list_all2 (entry_for ms) (hasMany_relations m) cs"
proof -
  from assms obtain k where n: "n = Suc k" by (cases n) auto
  from assms obtain m where m: "map_of ms a = Some m"
    using getDeepAssociations_Inr_defined by blast
  from assms n m
  have "collect_includes (\<lambda>t. getDeepAssociations k t ms) ms (associations m) [] = Some (Inr cs)"
    by simp
  then have "list_all2 (\<lambda>rel c. entry_model c = map_of ms (target_name rel) \<and>
                 getDeepAssociations k (target_name rel) ms = Some (Inr (entry_include c)))
       (hasMany_relations m) cs"
    unfolding hasMany_relations_def by (auto dest: collect_includes_Inr)
  then have "list_all2 (entry_for ms) (hasMany_relations m) cs"
    by (rule list_all2_mono)
       (auto simp: entry_for_def cascade_of_def dest: getDeepAssociations_Inr_defined)
  with m show ?thesis by blast
qed

lemma getDeepAssociations_edge:
  assumes "getDeepAssociations (Suc n) a ms = Some (Inr cs)"
    and "(a, b) \<in> hasMany_edges ms"
  shows "\<exists>cs'. getDeepAssociations n b ms = Some (Inr cs')"
proof -
  from assms(1) obtain m where m: "map_of ms a = Some m"
    using getDeepAssociations_Inr_defined by blast
  with assms(1)
  have "collect_includes (\<lambda>t. getDeepAssociations n t ms) ms (associations m) [] = Some (Inr cs)"
    by simp
  then have all: "list_all2 (\<lambda>rel c. entry_model c = map_of ms (target_name rel) \<and>
                 getDeepAssociations n (target_name rel) ms = Some (Inr (entry_include c)))
       (hasMany_relations m) cs"
    unfolding hasMany_relations_def by (auto dest: collect_includes_Inr)
  from assms(2) m obtain rel where rel: "rel \<in> set (hasMany_relations m)" "b = target_name rel"
    by (auto simp: hasMany_edges_def hasMany_targets_def)
  from rel(1) obtain i where i: "i < length (hasMany_relations m)" "hasMany_relations m ! i = rel"
    by (auto simp: in_set_conv_nth)
  with all have "getDeepAssociations n (target_name rel) ms = Some (Inr (entry_include (cs ! i)))"
    by (auto dest: list_all2_nthD)
  with rel(2) show ?thesis by blast
qed

lemma getDeepAssociations_path:
  assumes "(a, b) \<in> (hasMany_edges ms)\<^sup>+"
    and "getDeepAssociations n a ms = Some (Inr cs)"
  shows "\<exists>k cs'. k < n \<and> getDeepAssociations k b ms = Some (Inr cs')"
  using assms
proof (induction rule: trancl_induct)
  case (base b)
  from base(2) obtain k where "n = Suc k" by (cases n) auto
  with base show ?case using getDeepAssociations_edge by blast
next
  case (step b c)
  then obtain k cs' where k: "k < n" "getDeepAssociations k b ms = Some (Inr cs')"
    by blast
  from k(2) obtain j where j: "k = Suc j" by (cases k) auto
  with k(2) step(2) obtain cs'' where "getDeepAssociations j c ms = Some (Inr cs'')"
    using getDeepAssociations_edge by blast
  with k(1) j show ?case by (intro exI [of _ j]) auto
qed

lemma getDeepAssociations_no_cycle:
  "getDeepAssociations n b ms = Some (Inr cs) \<Longrightarrow> (b, b) \<notin> (hasMany_edges ms)\<^sup>+"
proof (induction n arbitrary: cs rule: less_induct)
  case (less n)
  show ?case
  proof
    assume "(b, b) \<in> (hasMany_edges ms)\<^sup>+"
    then obtain k cs' where "k < n" "getDeepAssociations k b ms = Some (Inr cs')"
      using less.prems getDeepAssociations_path by blast
    then have "(b, b) \<notin> (hasMany_edges ms)\<^sup>+" by (rule less.IH)
    with \<open>(b, b) \<in> (hasMany_edges ms)\<^sup>+\<close> show False by simp
  qed
qed

lemma getDeepAssociations_reach:
  assumes "(a, b) \<in> (hasMany_edges ms)\<^sup>*"
    and "getDeepAssociations n a ms = Some (Inr cs)"
  shows "\<exists>k cs'. getDeepAssociations k b ms = Some (Inr cs')"
proof (cases "a = b")
  case True
  with assms(2) show ?thesis by blast
next
  case False
  with assms(1) have "(a, b) \<in> (hasMany_edges ms)\<^sup>+" by (simp add: rtrancl_eq_or_trancl)
  then show ?thesis using assms(2) getDeepAssociations_path by blast
qed

lemma returns_acyclic:
  assumes "getDeepAssociations n a ms = Some (Inr cs)"
  shows "acyclic_from ms a"
  unfolding acyclic_from_def
  using assms getDeepAssociations_reach getDeepAssociations_no_cycle by blast

lemma returns_closed:
  assumes "getDeepAssociations n a ms = Some (Inr cs)"
  shows "closed_from ms a"
  unfolding closed_from_def
  using assms getDeepAssociations_reach getDeepAssociations_Inr_defined by blast

lemma cascade_of_unique:
  assumes "cascade_of ms a cs" and "getDeepAssociations k a ms = Some r"
  shows "r = Inr cs"
proof -
  from assms(1) obtain n where n: "getDeepAssociations n a ms = Some (Inr cs)"
    by (auto simp: cascade_of_def)
  then have "getDeepAssociations (max n k) a ms = Some (Inr cs)"
    by (rule getDeepAssociations_mono) simp
  moreover from assms(2) have "getDeepAssociations (max n k) a ms = Some r"
    by (rule getDeepAssociations_mono) simp
  ultimately show ?thesis by simp
qed

lemma collect_includes_no_hasMany:
  "filter (\<lambda>rel. associationType rel = ''HasMany'') (map snd rels) = [] \<Longrightarrow>
   collect_includes f ms rels acc = Some (Inr acc)"
  by (induction f ms rels acc rule: collect_includes.induct) (auto split: if_splits)

lemma list_all2_pick:
  assumes "list_all2 P xs ys" and "x \<in> set xs"
  shows "\<exists>y \<in> set ys. P x y"
proof -
  from assms(2) obtain i where i: "i < length xs" "xs ! i = x"
    by (auto simp: in_set_conv_nth)
  with assms(1) have "P x (ys ! i)" and "i < length ys"
    by (auto dest: list_all2_nthD list_all2_lengthD)
  then show ?thesis by (auto intro: nth_mem)
qed

lemma cascade_nested_along:
  assumes "cascade_of ms a cs" and "hasMany_chain ms a ts"
  shows "nested_along ms ts cs"
  using assms
proof (induction ts arbitrary: a cs)
  case Nil
  then show ?case by simp
next
  case (Cons t ts)
  from Cons.prems(1) obtain n where n: "getDeepAssociations n a ms = Some (Inr cs)"
    by (auto simp: cascade_of_def)
  from getDeepAssociations_shape [OF n]
  obtain m where m: "map_of ms a = Some m"
    and shape: "list_all2 (entry_for ms) (hasMany_relations m) cs"
    by (elim exE conjE)
  from Cons.prems(2) have t: "t \<in> set (hasMany_targets ms a)"
    and rest: "hasMany_chain ms t ts"
    by simp_all
  from t m obtain rel where rel: "rel \<in> set (hasMany_relations m)" "target_name rel = t"
    by (auto simp: hasMany_targets_def)
  from list_all2_pick [OF shape rel(1)]
  obtain c where c: "c \<in> set cs" "entry_for ms rel c" by (elim bexE)
  from c(2) rel(2) have model: "entry_model c \<noteq> None" "entry_model c = map_of ms t"
    and inner: "cascade_of ms t (entry_include c)"
    unfolding entry_for_def by blast+
  from Cons.IH [OF inner rest] have deeper: "nested_along ms ts (entry_include c)" .
  have "entry_model c \<noteq> None \<and> entry_model c = map_of ms t \<and>
        nested_along ms ts (entry_include c)"
    by (intro conjI) (rule model deeper)+
  then have "\<exists>c \<in> set cs. entry_model c \<noteq> None \<and> entry_model c = map_of ms t \<and>
        nested_along ms ts (entry_include c)"
    using c(1) by (rule bexI [of _ c])
  then show ?case by (simp only: nested_along.simps)
qed

lemma cascade_of_entries_defined:
  assumes "cascade_of ms a cs" and "c \<in> set cs"
  shows "entry_model c \<noteq> None"
proof -
  from assms(1) obtain n where n: "getDeepAssociations n a ms = Some (Inr cs)"
    by (auto simp: cascade_of_def)
  from getDeepAssociations_shape [OF n]
  obtain m where shape: "list_all2 (entry_for ms) (hasMany_relations m) cs"
    by (elim exE conjE)
  from assms(2) obtain i where i: "i < length cs" "cs ! i = c"
    by (auto simp: in_set_conv_nth)
  with shape have "entry_for ms (hasMany_relations m ! i) c"
    by (auto dest: list_all2_nthD2)
  then show ?thesis unfolding entry_for_def by (elim conjE)
qed

section \<open>Claims about the Deep Association Cascader\<close>

text \<open>
  C7, as stated: for every entity map and every entity, the cascader returns one entry
  per HasMany association. It does not on a cyclic HasMany graph: for an entity that has
  many of itself, no amount of fuel makes the call return.
\<close>

theorem getDeepAssociations_cycle_counterexample:
  "\<not> (\<exists>n r. getDeepAssociations n ''N'' cycle_models = Some r)"
proof -
  have "getDeepAssociations n ''N'' cycle_models = None" for n
    by (induction n) (simp_all add: cycle_models_def entity_N_def)
  then show ?thesis by simp
qed

text \<open>
  C7, amended: whenever the HasMany graph reachable from \<open>a\<close> is acyclic and names only
  entities of the map, the cascader returns a sequence \<open>cs\<close> (the same for every amount
  of fuel that is enough) with exactly one entry per HasMany association of \<open>a\<close>, in the
  order of the associations; each entry pairs the target entity with the cascade the
  cascader returns for that target. Associations of any other type (BelongsTo,
  BelongsToMany) give no entry. In particular, when \<open>a\<close> has many \<open>b\<close> and \<open>b\<close> has
  many \<open>c\<close>, the cascade of \<open>a\<close> has an entry for \<open>b\<close> and, nested in its include, an
  entry for \<open>c\<close>.
\<close>

theorem getDeepAssociations_cascade:
  assumes "acyclic_from ms a" and "closed_from ms a"
  shows "\<exists>m cs. map_of ms a = Some m \<and> cascade_of ms a cs \<and>
           (\<forall>k r. getDeepAssociations k a ms = Some r \<longrightarrow> r = Inr cs) \<and>
           list_all2 (entry_for ms) (hasMany_relations m) cs \<and>
           (\<forall>relB mB relC.
              relB \<in> set (hasMany_relations m) \<and> map_of ms (target_name relB) = Some mB \<and>
              relC \<in> set (hasMany_relations mB) \<longrightarrow>
              (\<exists>cB \<in> set cs. entry_for ms relB cB \<and>
                 (\<exists>cC \<in> set (entry_include cB). entry_for ms relC cC)))"
proof -
  from getDeepAssociations_returns [OF assms]
  obtain n cs where n: "getDeepAssociations n a ms = Some (Inr cs)" by (elim exE)
  then have c: "cascade_of ms a cs" unfolding cascade_of_def by (rule exI)
  from getDeepAssociations_shape [OF n]
  obtain m where m: "map_of ms a = Some m"
    and shape: "list_all2 (entry_for ms) (hasMany_relations m) cs"
    by (elim exE conjE)
  have uniq: "\<forall>k r. getDeepAssociations k a ms = Some r \<longrightarrow> r = Inr cs"
    by (intro allI impI) (rule cascade_of_unique [OF c])
  have nested: "\<exists>cB \<in> set cs. entry_for ms relB cB \<and>
                 (\<exists>cC \<in> set (entry_include cB). entry_for ms relC cC)"
    if relB: "relB \<in> set (hasMany_relations m)"
      and mB: "map_of ms (target_name relB) = Some mB"
      and relC: "relC \<in> set (hasMany_relations mB)" for relB mB relC
  proof -
    from list_all2_pick [OF shape relB]
    obtain cB where cB: "cB \<in> set cs" "entry_for ms relB cB" by (elim bexE)
    from cB(2) obtain k where
      k: "getDeepAssociations k (target_name relB) ms = Some (Inr (entry_include cB))"
      by (auto simp: entry_for_def cascade_of_def)
    from getDeepAssociations_shape [OF k]
    obtain mB' where "map_of ms (target_name relB) = Some mB'"
      and "list_all2 (entry_for ms) (hasMany_relations mB') (entry_include cB)"
      by (elim exE conjE)
    with mB have inner: "list_all2 (entry_for ms) (hasMany_relations mB) (entry_include cB)"
      by simp
    from list_all2_pick [OF inner relC]
    obtain cC where cC: "cC \<in> set (entry_include cB)" "entry_for ms relC cC"
      by (elim bexE)
    have inner_ex: "\<exists>cC \<in> set (entry_include cB). entry_for ms relC cC"
      by (rule bexI [of _ cC]) (rule cC(2), rule cC(1))
    show ?thesis
      by (rule bexI [of _ cB]) (rule conjI, rule cB(2), rule inner_ex, rule cB(1))
  qed
  show ?thesis
  proof (intro exI conjI)
    show "map_of ms a = Some m" by (rule m)
    show "cascade_of ms a cs" by (rule c)
    show "\<forall>k r. getDeepAssociations k a ms = Some r \<longrightarrow> r = Inr cs" by (rule uniq)
    show "list_all2 (entry_for ms) (hasMany_relations m) cs" by (rule shape)
    show "\<forall>relB mB relC.
              relB \<in> set (hasMany_relations m) \<and> map_of ms (target_name relB) = Some mB \<and>
              relC \<in> set (hasMany_relations mB) \<longrightarrow>
              (\<exists>cB \<in> set cs. entry_for ms relB cB \<and>
                 (\<exists>cC \<in> set (entry_include cB). entry_for ms relC cC))"
      by (intro allI impI, elim conjE, rule nested)
  qed
qed

theorem getDeepAssociations_cascade_witness:
  "acyclic_from chain_models ''A'' \<and> closed_from chain_models ''A'' \<and>
   getDeepAssociations 3 ''A'' chain_models =
     Some (Inr [IncludeEntry (Some entity_B) [IncludeEntry (Some entity_C) []]]) \<and>
   (\<exists>m cs. map_of chain_models ''A'' = Some m \<and> cascade_of chain_models ''A'' cs \<and>
      list_all2 (entry_for chain_models) (hasMany_relations m) cs)"
proof -
  have r: "getDeepAssociations 3 ''A'' chain_models =
     Some (Inr [IncludeEntry (Some entity_B) [IncludeEntry (Some entity_C) []]])"
    by (simp add: numeral_3_eq_3 chain_models_def entity_A_def entity_B_def entity_C_def)
  have ac: "acyclic_from chain_models ''A''" using r by (rule returns_acyclic)
  have cl: "closed_from chain_models ''A''" using r by (rule returns_closed)
  from getDeepAssociations_cascade [OF ac cl]
  obtain m cs where "map_of chain_models ''A'' = Some m"
    and "cascade_of chain_models ''A'' cs"
    and "list_all2 (entry_for chain_models) (hasMany_relations m) cs"
    by (elim exE conjE)
  then have ex: "\<exists>m cs. map_of chain_models ''A'' = Some m \<and> cascade_of chain_models ''A'' cs \<and>
      list_all2 (entry_for chain_models) (hasMany_relations m) cs"
    by (intro exI conjI)
  show ?thesis by (intro conjI) (rule ac cl r ex)+
qed

text \<open>
  C9: on every entity whose reachable HasMany graph is acyclic the cascader terminates:
  some amount of fuel is enough for the call to finish. When moreover every reachable
  target is an entity of the map, the call returns a sequence, the same for every amount
  of fuel that is enough, and the recursion is carried through chains of any depth: the
  sequence has one entry per HasMany association, each holding the cascade the cascader
  returns for its target, and along every HasMany chain from the entity, however long,
  the entries are nested one in the other. On an entity with no HasMany association it
  returns the empty sequence without recursing.
\<close>

theorem getDeepAssociations_terminates_acyclic:
  assumes "acyclic_from ms a"
  shows "(\<exists>n r. getDeepAssociations n a ms = Some r) \<and>
         (closed_from ms a \<longrightarrow>
            (\<exists>m cs. map_of ms a = Some m \<and> cascade_of ms a cs \<and>
               (\<forall>k r. getDeepAssociations k a ms = Some r \<longrightarrow> r = Inr cs) \<and>
               list_all2 (entry_for ms) (hasMany_relations m) cs \<and>
               (\<forall>ts. hasMany_chain ms a ts \<longrightarrow> nested_along ms ts cs))) \<and>
         (\<forall>m. map_of ms a = Some m \<and> hasMany_relations m = [] \<longrightarrow>
            getDeepAssociations (Suc 0) a ms = Some (Inr []) \<and> cascade_of ms a [])"
proof (intro conjI impI allI)
  show "\<exists>n r. getDeepAssociations n a ms = Some r"
    using assms by (rule getDeepAssociations_terminates)
next
  assume cl: "closed_from ms a"
  from getDeepAssociations_returns [OF assms cl]
  obtain n cs where n: "getDeepAssociations n a ms = Some (Inr cs)" by (elim exE)
  then have c: "cascade_of ms a cs" unfolding cascade_of_def by (rule exI)
  from getDeepAssociations_shape [OF n]
  obtain m where m: "map_of ms a = Some m"
    and shape: "list_all2 (entry_for ms) (hasMany_relations m) cs"
    by (elim exE conjE)
  have uniq: "\<forall>k r. getDeepAssociations k a ms = Some r \<longrightarrow> r = Inr cs"
    by (intro allI impI) (rule cascade_of_unique [OF c])
  have chains: "\<forall>ts. hasMany_chain ms a ts \<longrightarrow> nested_along ms ts cs"
    by (intro allI impI) (rule cascade_nested_along [OF c])
  from m c uniq shape chains
  show "\<exists>m cs. map_of ms a = Some m \<and> cascade_of ms a cs \<and>
               (\<forall>k r. getDeepAssociations k a ms = Some r \<longrightarrow> r = Inr cs) \<and>
               list_all2 (entry_for ms) (hasMany_relations m) cs \<and>
               (\<forall>ts. hasMany_chain ms a ts \<longrightarrow> nested_along ms ts cs)"
    by (intro exI conjI)
next
  fix m assume m: "map_of ms a = Some m \<and> hasMany_relations m = []"
  then show base: "getDeepAssociations (Suc 0) a ms = Some (Inr [])"
    by (simp add: hasMany_relations_def collect_includes_no_hasMany)
  then show "cascade_of ms a []" unfolding cascade_of_def by (rule exI)
qed

theorem getDeepAssociations_terminates_acyclic_witness:
  "acyclic_from chain_models ''A'' \<and> closed_from chain_models ''A'' \<and>
   hasMany_chain chain_models ''A'' [''B'', ''C''] \<and>
   cascade_of chain_models ''A''
     [IncludeEntry (Some entity_B) [IncludeEntry (Some entity_C) []]] \<and>
   nested_along chain_models [''B'', ''C'']
     [IncludeEntry (Some entity_B) [IncludeEntry (Some entity_C) []]] \<and>
   acyclic_from chain_models ''C'' \<and> hasMany_relations entity_C = [] \<and>
   getDeepAssociations (Suc 0) ''C'' chain_models = Some (Inr [])"
proof -
  let ?cs = "[IncludeEntry (Some entity_B) [IncludeEntry (Some entity_C) []]]"
  have rA: "getDeepAssociations 3 ''A'' chain_models = Some (Inr ?cs)"
    by (simp add: numeral_3_eq_3 chain_models_def entity_A_def entity_B_def entity_C_def)
  have rC: "getDeepAssociations 1 ''C'' chain_models = Some (Inr [])"
    by (simp add: chain_models_def entity_C_def)
  have acA: "acyclic_from chain_models ''A''" using rA by (rule returns_acyclic)
  have clA: "closed_from chain_models ''A''" using rA by (rule returns_closed)
  have acC: "acyclic_from chain_models ''C''" using rC by (rule returns_acyclic)
  have mC: "map_of chain_models ''C'' = Some entity_C" by (simp add: chain_models_def)
  have hC: "hasMany_relations entity_C = []"
    by (simp add: hasMany_relations_def entity_C_def)
  have ch: "hasMany_chain chain_models ''A'' [''B'', ''C'']"
    by (simp add: hasMany_targets_def hasMany_relations_def chain_models_def entity_A_def
          entity_B_def)
  from getDeepAssociations_terminates_acyclic [OF acA]
  have "closed_from chain_models ''A'' \<longrightarrow>
            (\<exists>m cs. map_of chain_models ''A'' = Some m \<and> cascade_of chain_models ''A'' cs \<and>
               (\<forall>k r. getDeepAssociations k ''A'' chain_models = Some r \<longrightarrow> r = Inr cs) \<and>
               list_all2 (entry_for chain_models) (hasMany_relations m) cs \<and>
               (\<forall>ts. hasMany_chain chain_models ''A'' ts \<longrightarrow> nested_along chain_models ts cs))"
    by (elim conjE)
  with clA obtain cs where c: "cascade_of chain_models ''A'' cs"
    and uniq: "\<forall>k r. getDeepAssociations k ''A'' chain_models = Some r \<longrightarrow> r = Inr cs"
    and chains: "\<forall>ts. hasMany_chain chain_models ''A'' ts \<longrightarrow> nested_along chain_models ts cs"
    by (elim impE exE conjE)
  from uniq rA have "Inr ?cs = (Inr cs :: error + include_entry list)"
    by (elim allE [of _ 3] allE [of _ "Inr ?cs"]) simp
  then have eq: "cs = ?cs" by simp
  from c eq have cA: "cascade_of chain_models ''A'' ?cs" by simp
  from chains have "hasMany_chain chain_models ''A'' [''B'', ''C''] \<longrightarrow>
      nested_along chain_models [''B'', ''C''] cs"
    by (rule spec)
  with ch have "nested_along chain_models [''B'', ''C''] cs" by (rule rev_mp)
  then have nA: "nested_along chain_models [''B'', ''C''] ?cs" unfolding eq .
  from getDeepAssociations_terminates_acyclic [OF acC]
  have "\<forall>m. map_of chain_models ''C'' = Some m \<and> hasMany_relations m = [] \<longrightarrow>
            getDeepAssociations (Suc 0) ''C'' chain_models = Some (Inr []) \<and>
            cascade_of chain_models ''C'' []"
    by (elim conjE)
  with mC hC have bC: "getDeepAssociations (Suc 0) ''C'' chain_models = Some (Inr [])"
    by (elim allE [of _ entity_C]) simp
  show ?thesis by (intro conjI) (rule acA clA ch cA nA acC hC bC)+
qed

section \<open>Claims about the Restful resolver\<close>

lemma to_double_exact: "\<bar>n\<bar> < 2 ^ 53 \<Longrightarrow> to_double n = n"
  by (simp add: to_double_def)

lemma js_sub_one_GraphQLInt:
  assumes "GraphQLInt_range p"
  shows "js_sub p 1 = p - 1"
proof -
  from assms have "\<bar>p - 1\<bar> < 2 ^ 53" by (simp add: GraphQLInt_range_def abs_less_iff)
  then show ?thesis unfolding js_sub_def by (rule to_double_exact)
qed

lemma restful_limit_nonzero: "restful_limit args \<noteq> 0"
  by (simp add: restful_limit_def parseInt_def split: option.split)

text \<open>
  C2, as stated: the limit is the supplied \<^verbatim>\<open>pageSize\<close>, the offset is
  \<open>(page - 1) * limit\<close>, and the envelope reports that page. A supplied \<^verbatim>\<open>pageSize\<close>
  of 0 gives the limit 10, not 0; a supplied \<^verbatim>\<open>page\<close> of 0 with \<^verbatim>\<open>pageSize\<close> 5
  gives the offset 0, not \<open>-5\<close>, and the reported page 1, not 0; and for the largest
  \<^verbatim>\<open>GraphQLInt\<close> as both page and page size the product is not a double, so the
  offset is the double next to it.
\<close>

theorem restful_pagination_counterexample:
  "opt_limit (restful_options (page_args (Some 3) (Some 0)) plain_context) = 10 \<and>
   opt_offset (restful_options (page_args (Some 0) (Some 5)) plain_context) = 0 \<and>
   restful_resolve empty_store (page_args (Some 0) (Some 5)) plain_context =
     Inr \<lparr>info = \<lparr>total_count = 0, pageSize = 5, page = 1\<rparr>, results = []\<rparr> \<and>
   GraphQLInt_range 2147483647 \<and>
   (2147483647 - 1) * 2147483647 = (4611686011984936962 :: int) \<and>
   opt_offset (restful_options (page_args (Some 2147483647) (Some 2147483647)) plain_context) =
     4611686011984936960"
  by code_simp

text \<open>
  C2, amended: the store query is issued with limit equal to the supplied
  \<^verbatim>\<open>pageSize\<close> when that is supplied and not 0, and 10 when it is absent; with offset
  equal to \<open>(page - 1) * limit\<close> when \<^verbatim>\<open>page\<close> is supplied, not 0 and the product is
  below \<open>2^53\<close> in magnitude (so that the double arithmetic is exact), and 0 when
  \<^verbatim>\<open>page\<close> is absent. When the store answers, the envelope reports the store's count
  and rows, that limit as \<^verbatim>\<open>pageSize\<close>, and the supplied non-zero page, or 1 when
  \<^verbatim>\<open>page\<close> is absent.
\<close>

theorem restful_pagination:
  assumes "findAndCountAll (restful_options args ctx) = Inr (count, rows)"
  shows "(\<forall>s. arg_pageSize args = Some s \<and> s \<noteq> 0 \<longrightarrow>
            opt_limit (restful_options args ctx) = s) \<and>
         (arg_pageSize args = None \<longrightarrow> opt_limit (restful_options args ctx) = 10) \<and>
         (\<forall>p. arg_page args = Some p \<and> p \<noteq> 0 \<and> GraphQLInt_range p \<and>
              \<bar>(p - 1) * opt_limit (restful_options args ctx)\<bar> < 2 ^ 53 \<longrightarrow>
            opt_offset (restful_options args ctx) =
              (p - 1) * opt_limit (restful_options args ctx)) \<and>
         (arg_page args = None \<longrightarrow> opt_offset (restful_options args ctx) = 0) \<and>
         (\<exists>env. restful_resolve findAndCountAll args ctx = Inr env \<and>
            total_count (info env) = count \<and> results env = rows \<and>
            pageSize (info env) = opt_limit (restful_options args ctx) \<and>
            (\<forall>p. arg_page args = Some p \<and> p \<noteq> 0 \<longrightarrow> page (info env) = p) \<and>
            (arg_page args = None \<longrightarrow> page (info env) = 1))"
proof (intro conjI)
  show "\<forall>s. arg_pageSize args = Some s \<and> s \<noteq> 0 \<longrightarrow>
            opt_limit (restful_options args ctx) = s"
    by (simp add: restful_options_def restful_limit_def parseInt_def)
  show "arg_pageSize args = None \<longrightarrow> opt_limit (restful_options args ctx) = 10"
    by (simp add: restful_options_def restful_limit_def)
  show "\<forall>p. arg_page args = Some p \<and> p \<noteq> 0 \<and> GraphQLInt_range p \<and>
              \<bar>(p - 1) * opt_limit (restful_options args ctx)\<bar> < 2 ^ 53 \<longrightarrow>
            opt_offset (restful_options args ctx) =
              (p - 1) * opt_limit (restful_options args ctx)"
    by (simp add: restful_options_def restful_offset_def js_sub_one_GraphQLInt js_mul_def
          to_double_exact)
  show "arg_page args = None \<longrightarrow> opt_offset (restful_options args ctx) = 0"
    by (simp add: restful_options_def restful_offset_def)
  show "\<exists>env. restful_resolve findAndCountAll args ctx = Inr env \<and>
            total_count (info env) = count \<and> results env = rows \<and>
            pageSize (info env) = opt_limit (restful_options args ctx) \<and>
            (\<forall>p. arg_page args = Some p \<and> p \<noteq> 0 \<longrightarrow> page (info env) = p) \<and>
            (arg_page args = None \<longrightarrow> page (info env) = 1)"
    using assms
    by (simp add: restful_resolve_def restful_page_def) (simp add: restful_options_def)
qed

theorem restful_pagination_witness:
  "empty_store (restful_options (page_args None (Some 10)) plain_context) = Inr (0, []) \<and>
   opt_limit (restful_options (page_args None (Some 10)) plain_context) = 10 \<and>
   opt_offset (restful_options (page_args None (Some 10)) plain_context) = 0 \<and>
   empty_store (restful_options (page_args (Some 3) (Some 5)) plain_context) = Inr (0, []) \<and>
   GraphQLInt_range 3 \<and>
   opt_limit (restful_options (page_args (Some 3) (Some 5)) plain_context) = 5 \<and>
   opt_offset (restful_options (page_args (Some 3) (Some 5)) plain_context) = 10 \<and>
   restful_resolve empty_store (page_args (Some 3) (Some 5)) plain_context =
     Inr \<lparr>info = \<lparr>total_count = 0, pageSize = 5, page = 3\<rparr>, results = []\<rparr>"
proof -
  have s1: "empty_store (restful_options (page_args None (Some 10)) plain_context) = Inr (0, [])"
    and s2: "empty_store (restful_options (page_args (Some 3) (Some 5)) plain_context) = Inr (0, [])"
    by (simp_all add: empty_store_def)
  have r: "GraphQLInt_range 3" by (simp add: GraphQLInt_range_def)
  note t1 = restful_pagination
    [where findAndCountAll = empty_store and args = "page_args None (Some 10)", OF s1]
  note t2 = restful_pagination
    [where findAndCountAll = empty_store and args = "page_args (Some 3) (Some 5)", OF s2]
  from t1 have l1: "opt_limit (restful_options (page_args None (Some 10)) plain_context) = 10"
    by (simp add: page_args_def)
  from t1 have o1: "opt_offset (restful_options (page_args None (Some 10)) plain_context) = 0"
    by (simp add: page_args_def)
  from t2 have l2: "opt_limit (restful_options (page_args (Some 3) (Some 5)) plain_context) = 5"
    by (simp add: page_args_def)
  from t2 l2 r have o2: "opt_offset (restful_options (page_args (Some 3) (Some 5)) plain_context) = 10"
    by (simp add: page_args_def)
  from t2 l2 r obtain env where
    env: "restful_resolve empty_store (page_args (Some 3) (Some 5)) plain_context = Inr env"
      "total_count (info env) = 0" "results env = []" "pageSize (info env) = 5" "page (info env) = 3"
    by (auto simp: page_args_def)
  from env have e: "restful_resolve empty_store (page_args (Some 3) (Some 5)) plain_context =
     Inr \<lparr>info = \<lparr>total_count = 0, pageSize = 5, page = 3\<rparr>, results = []\<rparr>"
    by (cases env, cases "info env") simp
  show ?thesis by (intro conjI) (rule s1 l1 o1 s2 r l2 o2 e)+
qed

text \<open>
  C10: a falsy argument is treated as an absent one. The store query and the resolver's
  answer are the same for a \<^verbatim>\<open>pageSize\<close> of 0 as for no \<^verbatim>\<open>pageSize\<close>, and the same
  for a \<^verbatim>\<open>page\<close> of 0 as for no \<^verbatim>\<open>page\<close>: a \<^verbatim>\<open>pageSize\<close> of 0 gives the limit
  10, a \<^verbatim>\<open>page\<close> of 0 gives the offset 0 and the reported page 1, and no call has
  the limit 0.
\<close>

theorem restful_falsy_as_absent:
  "restful_options (args\<lparr>arg_pageSize := Some 0\<rparr>) ctx =
     restful_options (args\<lparr>arg_pageSize := None\<rparr>) ctx \<and>
   restful_resolve findAndCountAll (args\<lparr>arg_pageSize := Some 0\<rparr>) ctx =
     restful_resolve findAndCountAll (args\<lparr>arg_pageSize := None\<rparr>) ctx \<and>
   restful_options (args\<lparr>arg_page := Some 0\<rparr>) ctx =
     restful_options (args\<lparr>arg_page := None\<rparr>) ctx \<and>
   restful_resolve findAndCountAll (args\<lparr>arg_page := Some 0\<rparr>) ctx =
     restful_resolve findAndCountAll (args\<lparr>arg_page := None\<rparr>) ctx \<and>
   opt_limit (restful_options (args\<lparr>arg_pageSize := Some 0\<rparr>) ctx) = 10 \<and>
   opt_offset (restful_options (args\<lparr>arg_page := Some 0\<rparr>) ctx) = 0 \<and>
   restful_page (args\<lparr>arg_page := Some 0\<rparr>) = 1 \<and>
   (\<forall>count rows.
      findAndCountAll (restful_options (args\<lparr>arg_page := Some 0\<rparr>) ctx) = Inr (count, rows) \<longrightarrow>
      (\<exists>env. restful_resolve findAndCountAll (args\<lparr>arg_page := Some 0\<rparr>) ctx = Inr env \<and>
         page (info env) = 1)) \<and>
   opt_limit (restful_options args ctx) \<noteq> 0"
proof -
  have o1: "restful_options (args\<lparr>arg_pageSize := Some 0\<rparr>) ctx =
     restful_options (args\<lparr>arg_pageSize := None\<rparr>) ctx"
    by (simp add: restful_options_def restful_limit_def restful_offset_def split: option.split)
  have p1: "restful_page (args\<lparr>arg_pageSize := Some 0\<rparr>) = restful_page (args\<lparr>arg_pageSize := None\<rparr>)"
    and l1: "restful_limit (args\<lparr>arg_pageSize := Some 0\<rparr>) = restful_limit (args\<lparr>arg_pageSize := None\<rparr>)"
    by (simp_all add: restful_page_def restful_limit_def)
  have o2: "restful_options (args\<lparr>arg_page := Some 0\<rparr>) ctx =
     restful_options (args\<lparr>arg_page := None\<rparr>) ctx"
    by (simp add: restful_options_def restful_limit_def restful_offset_def split: option.split)
  have p2: "restful_page (args\<lparr>arg_page := Some 0\<rparr>) = restful_page (args\<lparr>arg_page := None\<rparr>)"
    and l2: "restful_limit (args\<lparr>arg_page := Some 0\<rparr>) = restful_limit (args\<lparr>arg_page := None\<rparr>)"
    by (simp_all add: restful_page_def restful_limit_def)
  have r1: "restful_resolve findAndCountAll (args\<lparr>arg_pageSize := Some 0\<rparr>) ctx =
     restful_resolve findAndCountAll (args\<lparr>arg_pageSize := None\<rparr>) ctx"
    unfolding restful_resolve_def o1 p1 l1 by (rule refl)
  have r2: "restful_resolve findAndCountAll (args\<lparr>arg_page := Some 0\<rparr>) ctx =
     restful_resolve findAndCountAll (args\<lparr>arg_page := None\<rparr>) ctx"
    unfolding restful_resolve_def o2 p2 l2 by (rule refl)
  have a: "opt_limit (restful_options (args\<lparr>arg_pageSize := Some 0\<rparr>) ctx) = 10"
    by (simp add: restful_options_def restful_limit_def)
  have b: "opt_offset (restful_options (args\<lparr>arg_page := Some 0\<rparr>) ctx) = 0"
    by (simp add: restful_options_def restful_offset_def)
  have c: "restful_page (args\<lparr>arg_page := Some 0\<rparr>) = 1"
    by (simp add: restful_page_def)
  have d: "\<forall>count rows.
      findAndCountAll (restful_options (args\<lparr>arg_page := Some 0\<rparr>) ctx) = Inr (count, rows) \<longrightarrow>
      (\<exists>env. restful_resolve findAndCountAll (args\<lparr>arg_page := Some 0\<rparr>) ctx = Inr env \<and>
         page (info env) = 1)"
    by (simp add: restful_resolve_def c)
  have e: "opt_limit (restful_options args ctx) \<noteq> 0"
    by (simp add: restful_options_def restful_limit_nonzero)
  show ?thesis by (intro conjI) (rule o1 r1 o2 r2 a b c d e)+
qed

theorem restful_falsy_as_absent_witness:
  "empty_store (restful_options (page_args (Some 0) (Some 0)) plain_context) = Inr (0, []) \<and>
   opt_limit (restful_options (page_args (Some 0) (Some 0)) plain_context) = 10 \<and>
   opt_offset (restful_options (page_args (Some 0) (Some 0)) plain_context) = 0 \<and>
   (\<exists>env. restful_resolve empty_store (page_args (Some 0) (Some 0)) plain_context = Inr env \<and>
      page (info env) = 1)"
proof -
  have s: "empty_store (restful_options (page_args (Some 0) (Some 0)) plain_context) = Inr (0, [])"
    by (simp add: empty_store_def)
  have u1: "page_args (Some 0) (Some 0) = (page_args (Some 0) (Some 0))\<lparr>arg_pageSize := Some 0\<rparr>"
    and u2: "page_args (Some 0) (Some 0) = (page_args (Some 0) (Some 0))\<lparr>arg_page := Some 0\<rparr>"
    by (simp_all add: page_args_def)
  note t = restful_falsy_as_absent
    [of "page_args (Some 0) (Some 0)" plain_context empty_store, folded u1 u2]
  from t have l: "opt_limit (restful_options (page_args (Some 0) (Some 0)) plain_context) = 10"
    by (elim conjE)
  from t have o: "opt_offset (restful_options (page_args (Some 0) (Some 0)) plain_context) = 0"
    by (elim conjE)
  from t have "\<forall>count rows.
      empty_store (restful_options (page_args (Some 0) (Some 0)) plain_context) = Inr (count, rows) \<longrightarrow>
      (\<exists>env. restful_resolve empty_store (page_args (Some 0) (Some 0)) plain_context = Inr env \<and>
         page (info env) = 1)"
    by (elim conjE)
  with s have e: "\<exists>env. restful_resolve empty_store (page_args (Some 0) (Some 0)) plain_context = Inr env \<and>
      page (info env) = 1"
    by blast
  show ?thesis by (intro conjI) (rule s l o e)+
qed

text \<open>
  C3: when a \<^verbatim>\<open>where\<close> argument is supplied, the conditions passed to the store have
  the keys of the argument, in its order; for a key whose value contains the wildcard
  marker \<^verbatim>\<open>%\<close> (in the string \<^verbatim>\<open>String(value)\<close>, which for a string value is the
  value itself) the condition is the pattern match \<^verbatim>\<open>{ [Op.like]: value }\<close>, and for
  every other key it is the value as supplied, an exact equality.
\<close>

theorem restful_filter_wildcards:
  assumes "arg_where args = Some w"
  shows "\<exists>w'. opt_where (restful_options args ctx) = Some w' \<and>
           list_all2
             (\<lambda>(key, v) (key', c). key' = key \<and>
                 (has_wildcard v \<longrightarrow> c = OpLike v) \<and> (\<not> has_wildcard v \<longrightarrow> c = Plain v))
             w w' \<and>
           (\<forall>key v. map_of w key = Some v \<longrightarrow>
              map_of w' key = Some (if has_wildcard v then OpLike v else Plain v)) \<and>
           (\<forall>s. has_wildcard (JStr s) = (CHR ''%'' \<in> set s))"
proof -
  have w': "opt_where (restful_options args ctx) = Some (parse_where w)"
    using assms by (simp add: restful_options_def)
  have pos: "list_all2
             (\<lambda>(key, v) (key', c). key' = key \<and>
                 (has_wildcard v \<longrightarrow> c = OpLike v) \<and> (\<not> has_wildcard v \<longrightarrow> c = Plain v))
             w (parse_where w)"
    by (simp add: parse_where_def list_all2_map2 list_all2_same split: prod.splits)
  have look: "map_of (parse_where w) key =
      map_option (\<lambda>v. if has_wildcard v then OpLike v else Plain v) (map_of w key)" for key
    by (induction w) (auto simp: parse_where_def)
  have by_key: "\<forall>key v. map_of w key = Some v \<longrightarrow>
              map_of (parse_where w) key = Some (if has_wildcard v then OpLike v else Plain v)"
    by (simp add: look)
  have str: "\<forall>s. has_wildcard (JStr s) = (CHR ''%'' \<in> set s)"
    by (simp add: has_wildcard_def)
  from w' pos by_key str show ?thesis by (intro exI [of _ "parse_where w"] conjI)
qed

theorem restful_filter_wildcards_witness:
  "arg_where \<lparr>arg_where = Some name_filter, arg_order = None, arg_page = None,
       arg_pageSize = None\<rparr> = Some name_filter \<and>
   (\<exists>w'. opt_where (restful_options
        \<lparr>arg_where = Some name_filter, arg_order = None, arg_page = None,
          arg_pageSize = None\<rparr> plain_context) = Some w' \<and>
      map_of w' ''name'' = Some (OpLike (JStr ''Ann%'')) \<and>
      map_of w' ''city'' = Some (Plain (JStr ''Oslo'')) \<and>
      map_of w' ''age'' = Some (Plain (JNum 30)))"
proof -
  let ?args = "\<lparr>arg_where = Some name_filter, arg_order = None, arg_page = None,
       arg_pageSize = None\<rparr>"
  have h: "arg_where ?args = Some name_filter" by simp
  have n: "map_of name_filter ''name'' = Some (JStr ''Ann%'')"
    and c: "map_of name_filter ''city'' = Some (JStr ''Oslo'')"
    and a: "map_of name_filter ''age'' = Some (JNum 30)"
    by (simp_all add: name_filter_def)
  have wn: "has_wildcard (JStr ''Ann%'')" and wc: "\<not> has_wildcard (JStr ''Oslo'')"
    and wa: "\<not> has_wildcard (JNum 30)"
    by code_simp+
  from restful_filter_wildcards [OF h, of plain_context]
  obtain w' where w': "opt_where (restful_options ?args plain_context) = Some w'"
    and key: "\<forall>key v. map_of name_filter key = Some v \<longrightarrow>
              map_of w' key = Some (if has_wildcard v then OpLike v else Plain v)"
    by (elim exE conjE)
  from key n wn have kn: "map_of w' ''name'' = Some (OpLike (JStr ''Ann%''))" by fastforce
  from key c wc have kc: "map_of w' ''city'' = Some (Plain (JStr ''Oslo''))" by fastforce
  from key a wa have ka: "map_of w' ''age'' = Some (Plain (JNum 30))" by fastforce
  from w' kn kc ka
  have "\<exists>w'. opt_where (restful_options ?args plain_context) = Some w' \<and>
      map_of w' ''name'' = Some (OpLike (JStr ''Ann%'')) \<and>
      map_of w' ''city'' = Some (Plain (JStr ''Oslo'')) \<and>
      map_of w' ''age'' = Some (Plain (JNum 30))"
    by (intro exI conjI)
  with h show ?thesis by (intro conjI)
qed

section \<open>Claims about the query root\<close>

lemma foldl_add_module_base:
  "foldl (add_module env dir) (c ++ d) files = c ++ foldl (add_module env dir) d files"
  by (induction files arbitrary: d)
     (simp_all add: add_module_def Let_def map_add_upd [symmetric] del: map_add_upd)

lemma discovered_customs_base:
  "discovered_customs env opts kind customs =
     customs ++ discovered_customs env opts kind Map.empty"
proof -
  have "foldl (add_module env dir) customs files =
          customs ++ foldl (add_module env dir) Map.empty files" for dir files
    using foldl_add_module_base [of env dir customs Map.empty files] by simp
  then show ?thesis
    by (simp add: discovered_customs_def Let_def split: option.split)
qed

lemma query_fields_step_lookup:
  assumes "query_fields_step getProperTypeName env opts ms flds n = Inr flds'"
  shows "\<exists>m. map_of ms n = Some m \<and>
           (\<forall>x. flds' x =
              (case directory_customs env opts x of
                 Some f \<Rightarrow> Some f
               | None \<Rightarrow>
                   (case inline_customs n m x of
                      Some f \<Rightarrow> Some f
                    | None \<Rightarrow>
                        (case generated_fields (getProperTypeName m) n x of
                           Some f \<Rightarrow> Some f
                         | None \<Rightarrow> flds x))))"
proof (cases "map_of ms n")
  case None
  with assms show ?thesis by (simp add: query_fields_step_def)
next
  case (Some m)
  with assms have "flds' =
      flds ++ generated_fields (getProperTypeName m) n ++
        (inline_customs n m ++ directory_customs env opts)"
    using discovered_customs_base [of env opts "''query''" "inline_customs n m"]
    by (simp add: query_fields_step_def directory_customs_def)
  then have "\<forall>x. flds' x =
              (case directory_customs env opts x of
                 Some f \<Rightarrow> Some f
               | None \<Rightarrow>
                   (case inline_customs n m x of
                      Some f \<Rightarrow> Some f
                    | None \<Rightarrow>
                        (case generated_fields (getProperTypeName m) n x of
                           Some f \<Rightarrow> Some f
                         | None \<Rightarrow> flds x)))"
    by (simp add: map_add_def split: option.split)
  with Some show ?thesis by simp
qed

lemma reduce_fields_directory:
  assumes "reduce_fields (query_fields_step getProperTypeName env opts ms) flds names = Inr built"
    and "directory_customs env opts x = Some f"
    and "names \<noteq> [] \<or> flds x = Some f"
  shows "built x = Some f"
  using assms(1,3)
proof (induction names arbitrary: flds)
  case Nil
  then show ?case by simp
next
  case (Cons n names)
  from Cons.prems(1) obtain flds' where
    step: "query_fields_step getProperTypeName env opts ms flds n = Inr flds'"
    and rest: "reduce_fields (query_fields_step getProperTypeName env opts ms) flds' names = Inr built"
    by (auto split: sum.splits)
  from query_fields_step_lookup [OF step] assms(2) have "flds' x = Some f" by auto
  then have "names \<noteq> [] \<or> flds' x = Some f" by simp
  from Cons.IH [OF rest this] show ?case .
qed

text \<open>
  C1, as stated: the inline override named \<open>x\<close> wins over the discovered module named
  \<open>x\<close>. In the example build the entity has the inline override \<open>x\<close>, the directory
  holds \<^verbatim>\<open>x.js\<close> and the generated singular field is named \<open>x\<close>; the query root holds
  the discovered module under \<open>x\<close>, not the inline override.
\<close>

theorem query_override_counterexample:
  "inline_customs ''x'' entity_x ''x'' = Some (InlineDescriptor ''inline x'') \<and>
   generated_fields (plain_names entity_x) ''x'' ''x'' = Some (SingularField ''x'') \<and>
   directory_customs customs_env customs_options ''x'' =
     Some (ModuleField \<lparr>export_name = Some ''x'', export_rest = ''/app/customs/query/x.js''\<rparr>) \<and>
   field_named
     (generateQueryRootType plain_names customs_env customs_options [(''x'', entity_x)] [''x''])
     ''x'' =
     Some (ModuleField \<lparr>export_name = Some ''x'', export_rest = ''/app/customs/query/x.js''\<rparr>)"
  by code_simp

text \<open>
  C1, amended: on a shared name the discovered module wins. After the merge step of an
  entity, a name holds the discovered module of that name if there is one; otherwise the
  entity's inline override of that name if there is one; otherwise the entity's
  generated field of that name; otherwise what the fields held before. So an override
  named \<open>x\<close> suppresses the generated field named \<open>x\<close>, the inline override named \<open>x\<close>
  is itself suppressed by the discovered module named \<open>x\<close>, and a generated name is
  used only when no override of the entity claims it. In the finished query root of a
  non-empty build every discovered module is the field of its name.
\<close>

theorem query_override_precedence:
  "(\<forall>flds'. query_fields_step getProperTypeName env opts ms flds n = Inr flds' \<longrightarrow>
      (\<exists>m. map_of ms n = Some m \<and>
         (\<forall>x. flds' x =
            (case directory_customs env opts x of
               Some f \<Rightarrow> Some f
             | None \<Rightarrow>
                 (case inline_customs n m x of
                    Some f \<Rightarrow> Some f
                  | None \<Rightarrow>
                      (case generated_fields (getProperTypeName m) n x of
                         Some f \<Rightarrow> Some f
                       | None \<Rightarrow> flds x)))))) \<and>
   (\<forall>built x f.
      generateQueryRootType getProperTypeName env opts ms names = Inr built \<and> names \<noteq> [] \<and>
      directory_customs env opts x = Some f \<longrightarrow>
      built x = Some f)"
proof (intro conjI allI impI)
  fix flds'
  assume "query_fields_step getProperTypeName env opts ms flds n = Inr flds'"
  then show "\<exists>m. map_of ms n = Some m \<and>
         (\<forall>x. flds' x =
            (case directory_customs env opts x of
               Some f \<Rightarrow> Some f
             | None \<Rightarrow>
                 (case inline_customs n m x of
                    Some f \<Rightarrow> Some f
                  | None \<Rightarrow>
                      (case generated_fields (getProperTypeName m) n x of
                         Some f \<Rightarrow> Some f
                       | None \<Rightarrow> flds x))))"
    by (rule query_fields_step_lookup)
next
  fix built x f
  assume a: "generateQueryRootType getProperTypeName env opts ms names = Inr built \<and>
      names \<noteq> [] \<and> directory_customs env opts x = Some f"
  then have r: "reduce_fields (query_fields_step getProperTypeName env opts ms) Map.empty names =
      Inr built"
    by (simp add: generateQueryRootType_def)
  from a have d: "directory_customs env opts x = Some f"
    and ne: "names \<noteq> [] \<or> Map.empty x = Some f"
    by simp_all
  from reduce_fields_directory [OF r d ne] show "built x = Some f" .
qed

theorem query_override_precedence_witness:
  "(\<exists>built.
      generateQueryRootType plain_names customs_env customs_options [(''x'', entity_x)] [''x''] =
        Inr built \<and>
      built ''x'' =
        Some (ModuleField \<lparr>export_name = Some ''x'', export_rest = ''/app/customs/query/x.js''\<rparr>)) \<and>
   (\<exists>flds'.
      query_fields_step plain_names customs_env customs_options [(''x'', entity_x)] Map.empty ''x'' =
        Inr flds' \<and>
      flds' ''xs'' = Some (InlineDescriptor ''inline xs'') \<and>
      flds' ''xRestful'' = Some (RestfulField ''x''))"
proof -
  let ?ms = "[(''x'', entity_x)]"
  note t = query_override_precedence
    [of plain_names customs_env customs_options ?ms Map.empty "''x''" "[''x'']"]
  obtain flds' where
    step: "query_fields_step plain_names customs_env customs_options ?ms Map.empty ''x'' = Inr flds'"
    by (simp add: query_fields_step_def)
  then have built:
    "generateQueryRootType plain_names customs_env customs_options ?ms [''x''] = Inr flds'"
    by (simp add: generateQueryRootType_def)
  have dir_x: "directory_customs customs_env customs_options ''x'' =
     Some (ModuleField \<lparr>export_name = Some ''x'', export_rest = ''/app/customs/query/x.js''\<rparr>)"
    and dir_xs: "directory_customs customs_env customs_options ''xs'' = None"
    and dir_r: "directory_customs customs_env customs_options ''xRestful'' = None"
    and in_xs: "inline_customs ''x'' entity_x ''xs'' = Some (InlineDescriptor ''inline xs'')"
    and in_r: "inline_customs ''x'' entity_x ''xRestful'' = None"
    and gen_r: "generated_fields (plain_names entity_x) ''x'' ''xRestful'' = Some (RestfulField ''x'')"
    by code_simp+
  from t built dir_x have bx: "flds' ''x'' =
     Some (ModuleField \<lparr>export_name = Some ''x'', export_rest = ''/app/customs/query/x.js''\<rparr>)"
    by blast
  from t step have look: "\<exists>m. map_of ?ms ''x'' = Some m \<and>
         (\<forall>x. flds' x =
            (case directory_customs customs_env customs_options x of
               Some f \<Rightarrow> Some f
             | None \<Rightarrow>
                 (case inline_customs ''x'' m x of
                    Some f \<Rightarrow> Some f
                  | None \<Rightarrow>
                      (case generated_fields (plain_names m) ''x'' x of
                         Some f \<Rightarrow> Some f
                       | None \<Rightarrow> Map.empty x))))"
    by blast
  then have look': "\<forall>x. flds' x =
            (case directory_customs customs_env customs_options x of
               Some f \<Rightarrow> Some f
             | None \<Rightarrow>
                 (case inline_customs ''x'' entity_x x of
                    Some f \<Rightarrow> Some f
                  | None \<Rightarrow>
                      (case generated_fields (plain_names entity_x) ''x'' x of
                         Some f \<Rightarrow> Some f
                       | None \<Rightarrow> None)))"
    by simp
  have bxs: "flds' ''xs'' = Some (InlineDescriptor ''inline xs'')"
    by (simp add: look' dir_xs in_xs)
  have br: "flds' ''xRestful'' = Some (RestfulField ''x'')"
    by (simp add: look' dir_r in_r gen_r)
  from built bx have e1: "\<exists>built.
      generateQueryRootType plain_names customs_env customs_options ?ms [''x''] = Inr built \<and>
      built ''x'' =
        Some (ModuleField \<lparr>export_name = Some ''x'', export_rest = ''/app/customs/query/x.js''\<rparr>)"
    by (intro exI conjI)
  from step bxs br have e2: "\<exists>flds'.
      query_fields_step plain_names customs_env customs_options ?ms Map.empty ''x'' = Inr flds' \<and>
      flds' ''xs'' = Some (InlineDescriptor ''inline xs'') \<and>
      flds' ''xRestful'' = Some (RestfulField ''x'')"
    by (intro exI conjI)
  from e1 e2 show ?thesis by (intro conjI)
qed

section \<open>Claims about the type builder\<close>

lemma map_of_filter_map:
  "map_of (map (\<lambda>(key, a). (key, f a)) (filter (\<lambda>(key, a). key \<notin> S) xs)) k =
     (if k \<in> S then None else map_option f (map_of xs k))"
  by (induction xs) auto

lemma attributeFields_lookup:
  "attributeFields m exclude allowNull k =
     (if k \<in> set exclude then None
      else map_option (\<lambda>a. AttributeField a allowNull) (map_of (rawAttributes m) k))"
  by (simp add: attributeFields_def map_of_filter_map)

lemma association_fields_values:
  "association_fields assocs types isInput init = Inr flds \<Longrightarrow> flds k = Some v \<Longrightarrow>
   init k = Some v \<or> (\<exists>t r. v = AssociationField t r)"
  by (induction assocs types isInput init rule: association_fields.induct)
     (auto split: if_splits option.splits)

lemma association_fields_defined:
  "\<forall>rel \<in> snd ` set assocs. types (target_name rel) \<noteq> None \<Longrightarrow>
   \<exists>flds. association_fields assocs types isInput init = Inr flds"
  by (induction assocs types isInput init rule: association_fields.induct) auto

text \<open>
  C8: in the output type (\<open>isInput\<close> false) and in the input type (\<open>isInput\<close> true) of
  every entity, whenever the fields of the type can be read, the name \<^verbatim>\<open>contrasena\<close>,
  the credential attribute, holds no attribute's field; the fields can be read whenever
  every association's target has a generated type. For an entity with no associations
  the fields of either type can be read and are exactly the attributes of the entity
  other than \<^verbatim>\<open>contrasena\<close>, each with the field of that attribute.
\<close>

theorem generated_types_exclude_credential:
  "(\<forall>flds a n.
      type_fields (generateGraphQLType getProperTypeName m types isInput) = Inr flds \<longrightarrow>
      flds ''contrasena'' \<noteq> Some (AttributeField a n)) \<and>
   ((\<forall>rel \<in> snd ` set (associations m). types (target_name rel) \<noteq> None) \<longrightarrow>
      (\<exists>flds. type_fields (generateGraphQLType getProperTypeName m types isInput) = Inr flds)) \<and>
   (associations m = [] \<longrightarrow>
      (\<exists>flds.
         type_fields (generateGraphQLType getProperTypeName m types isInput) = Inr flds \<and>
         dom flds = fst ` set (rawAttributes m) - {''contrasena''} \<and>
         (\<forall>k a. k \<noteq> ''contrasena'' \<and> map_of (rawAttributes m) k = Some a \<longrightarrow>
            flds k = Some (AttributeField a isInput))))"
proof (intro conjI allI impI)
  fix flds a n
  assume r: "type_fields (generateGraphQLType getProperTypeName m types isInput) = Inr flds"
  then obtain af where af: "association_fields (associations m) types isInput Map.empty = Inr af"
    and flds: "flds = attributeFields m [''contrasena''] isInput ++ af"
    by (auto simp: generateGraphQLType_def generateAssociationFields_def Let_def
             split: sum.splits)
  show "flds ''contrasena'' \<noteq> Some (AttributeField a n)"
  proof
    assume "flds ''contrasena'' = Some (AttributeField a n)"
    then have "af ''contrasena'' = Some (AttributeField a n)"
      unfolding flds by (auto simp: map_add_Some_iff attributeFields_lookup)
    from association_fields_values [OF af this] show False by auto
  qed
next
  assume "\<forall>rel \<in> snd ` set (associations m). types (target_name rel) \<noteq> None"
  then have "\<exists>af. association_fields (associations m) types isInput Map.empty = Inr af"
    by (rule association_fields_defined)
  then show "\<exists>flds. type_fields (generateGraphQLType getProperTypeName m types isInput) = Inr flds"
    by (auto simp: generateGraphQLType_def generateAssociationFields_def Let_def)
next
  assume none: "associations m = []"
  then have flds: "type_fields (generateGraphQLType getProperTypeName m types isInput) =
      Inr (attributeFields m [''contrasena''] isInput)"
    by (simp add: generateGraphQLType_def Let_def generateAssociationFields_def)
  have d: "dom (attributeFields m [''contrasena''] isInput) =
        fst ` set (rawAttributes m) - {''contrasena''}"
    by (auto simp: attributeFields_lookup dom_def dom_map_of_conv_image_fst [symmetric]
             split: if_splits)
  have v: "\<forall>k a. k \<noteq> ''contrasena'' \<and> map_of (rawAttributes m) k = Some a \<longrightarrow>
            attributeFields m [''contrasena''] isInput k = Some (AttributeField a isInput)"
    by (simp add: attributeFields_lookup)
  from flds d v
  show "\<exists>flds.
         type_fields (generateGraphQLType getProperTypeName m types isInput) = Inr flds \<and>
         dom flds = fst ` set (rawAttributes m) - {''contrasena''} \<and>
         (\<forall>k a. k \<noteq> ''contrasena'' \<and> map_of (rawAttributes m) k = Some a \<longrightarrow>
            flds k = Some (AttributeField a isInput))"
    by (intro exI conjI)
qed

theorem generated_types_exclude_credential_witness:
  "associations entity_user = [] \<and>
   ''contrasena'' \<in> fst ` set (rawAttributes entity_user) \<and>
   (\<exists>flds. type_fields (generateGraphQLType plain_names entity_user Map.empty False) = Inr flds \<and>
      dom flds = {''id'', ''email''}) \<and>
   (\<exists>flds. type_fields (generateGraphQLType plain_names entity_user Map.empty True) = Inr flds \<and>
      dom flds = {''id'', ''email''})"
proof -
  have a: "associations entity_user = []" by (simp add: entity_user_def)
  have c: "''contrasena'' \<in> fst ` set (rawAttributes entity_user)"
    by (simp add: entity_user_def)
  have s: "fst ` set (rawAttributes entity_user) - {''contrasena''} = {''id'', ''email''}"
    by (auto simp: entity_user_def id_attribute_def)
  from generated_types_exclude_credential [of plain_names entity_user Map.empty False]
  have "associations entity_user = [] \<longrightarrow>
      (\<exists>flds.
         type_fields (generateGraphQLType plain_names entity_user Map.empty False) = Inr flds \<and>
         dom flds = fst ` set (rawAttributes entity_user) - {''contrasena''} \<and>
         (\<forall>k a. k \<noteq> ''contrasena'' \<and> map_of (rawAttributes entity_user) k = Some a \<longrightarrow>
            flds k = Some (AttributeField a False)))"
    by (elim conjE)
  with a obtain flds where "type_fields (generateGraphQLType plain_names entity_user Map.empty False) =
      Inr flds"
    and "dom flds = fst ` set (rawAttributes entity_user) - {''contrasena''}"
    by (elim impE exE conjE)
  with s have o: "\<exists>flds.
      type_fields (generateGraphQLType plain_names entity_user Map.empty False) = Inr flds \<and>
      dom flds = {''id'', ''email''}"
    by (intro exI [of _ flds]) simp
  from generated_types_exclude_credential [of plain_names entity_user Map.empty True]
  have "associations entity_user = [] \<longrightarrow>
      (\<exists>flds.
         type_fields (generateGraphQLType plain_names entity_user Map.empty True) = Inr flds \<and>
         dom flds = fst ` set (rawAttributes entity_user) - {''contrasena''} \<and>
         (\<forall>k a. k \<noteq> ''contrasena'' \<and> map_of (rawAttributes entity_user) k = Some a \<longrightarrow>
            flds k = Some (AttributeField a True)))"
    by (elim conjE)
  with a obtain flds' where "type_fields (generateGraphQLType plain_names entity_user Map.empty True) =
      Inr flds'"
    and "dom flds' = fst ` set (rawAttributes entity_user) - {''contrasena''}"
    by (elim impE exE conjE)
  with s have i: "\<exists>flds.
      type_fields (generateGraphQLType plain_names entity_user Map.empty True) = Inr flds \<and>
      dom flds = {''id'', ''email''}"
    by (intro exI [of _ flds']) simp
  show ?thesis by (intro conjI) (rule a c o i)+
qed

section \<open>Claims about the mutation resolvers\<close>

text \<open>
  C6: when \<^verbatim>\<open>create\<close> succeeds with a record, the add mutation returns that record;
  with subscriptions enabled it publishes exactly one event, on the topic
  \<^verbatim>\<open><E>_ADDED\<close>, whose payload carries the record; with subscriptions disabled it
  publishes no event.
\<close>

theorem add_publishes_added:
  assumes "create input includeArrayModels st = (Inr newObject, st')"
  shows "(subscriptions opts \<longrightarrow>
            add_resolve create opts names includeArrayModels input st =
              (Inr newObject,
               [\<lparr>topic = toUpperWithLodashes_singular names @ ''_ADDED'',
                 payload_key = lowerFirst_singular names @ ''Added'',
                 payload = RowPayload newObject\<rparr>],
               st')) \<and>
         (\<not> subscriptions opts \<longrightarrow>
            add_resolve create opts names includeArrayModels input st =
              (Inr newObject, [], st'))"
  using assms by (simp add: add_resolve_def)

theorem add_publishes_added_witness:
  "counting_create (Some [(''email'', JStr ''x'')]) [] 5 =
     (Inr [(''id'', JNum 5), (''email'', JStr ''x'')], 6) \<and>
   subscriptions subscribed \<and> \<not> subscriptions unsubscribed \<and>
   add_resolve counting_create subscribed (plain_names entity_user) []
       (Some [(''email'', JStr ''x'')]) 5 =
     (Inr [(''id'', JNum 5), (''email'', JStr ''x'')],
      [\<lparr>topic = ''user_ADDED'', payload_key = ''userAdded'',
        payload = RowPayload [(''id'', JNum 5), (''email'', JStr ''x'')]\<rparr>],
      6) \<and>
   add_resolve counting_create unsubscribed (plain_names entity_user) []
       (Some [(''email'', JStr ''x'')]) 5 =
     (Inr [(''id'', JNum 5), (''email'', JStr ''x'')], [], 6)"
proof -
  have c: "counting_create (Some [(''email'', JStr ''x'')]) [] 5 =
     (Inr [(''id'', JNum 5), (''email'', JStr ''x'')], 6)"
    by (simp add: counting_create_def)
  have s: "subscriptions subscribed" and u: "\<not> subscriptions unsubscribed"
    by (simp_all add: subscribed_def unsubscribed_def)
  from add_publishes_added
    [where create = counting_create and opts = subscribed and names = "plain_names entity_user",
     OF c] s
  have p: "add_resolve counting_create subscribed (plain_names entity_user) []
       (Some [(''email'', JStr ''x'')]) 5 =
     (Inr [(''id'', JNum 5), (''email'', JStr ''x'')],
      [\<lparr>topic = ''user_ADDED'', payload_key = ''userAdded'',
        payload = RowPayload [(''id'', JNum 5), (''email'', JStr ''x'')]\<rparr>],
      6)"
    by (simp add: plain_names_def entity_user_def)
  from add_publishes_added
    [where create = counting_create and opts = unsubscribed and names = "plain_names entity_user",
     OF c] u
  have q: "add_resolve counting_create unsubscribed (plain_names entity_user) []
       (Some [(''email'', JStr ''x'')]) 5 =
     (Inr [(''id'', JNum 5), (''email'', JStr ''x'')], [], 6)"
    by simp
  show ?thesis by (intro conjI) (rule c s u p q)+
qed

text \<open>
  C5: the delete mutation returns the number of rows the store reports as deleted, and
  publishes one \<^verbatim>\<open><E>_DELETED\<close> event carrying \<^verbatim>\<open>where[key]\<close> exactly when that
  number is positive and subscriptions are enabled. On a table keyed by the primary key:
  for a key with no row it returns 0, publishes nothing and leaves the table as it was;
  for the key of a row it returns 1, removes the row, and publishes exactly one event
  carrying that key when subscriptions are enabled, none otherwise.
\<close>

theorem delete_returns_affected_rows:
  "(\<forall>destroy whr st n st'.
      destroy whr st = (Inr n, st') \<longrightarrow>
      delete_resolve destroy opts names key whr st =
        (Inr n,
         (if 0 < n \<and> subscriptions opts
          then [\<lparr>topic = toUpperWithLodashes_singular names @ ''_DELETED'',
                 payload_key = lowerFirst_singular names @ ''Deleted'',
                 payload = KeyPayload (map_of whr key)\<rparr>]
          else []),
         st')) \<and>
   (t v = None \<longrightarrow>
      delete_resolve (table_destroy key) opts names key [(key, v)] t = (Inr 0, [], t)) \<and>
   (t v \<noteq> None \<longrightarrow>
      delete_resolve (table_destroy key) opts names key [(key, v)] t =
        (Inr 1,
         (if subscriptions opts
          then [\<lparr>topic = toUpperWithLodashes_singular names @ ''_DELETED'',
                 payload_key = lowerFirst_singular names @ ''Deleted'',
                 payload = KeyPayload (Some v)\<rparr>]
          else []),
         t(v := None)))"
  by (auto simp: delete_resolve_def table_destroy_def)

theorem delete_returns_affected_rows_witness:
  "one_row_table (JNum 2) = None \<and>
   delete_resolve (table_destroy ''id'') subscribed (plain_names entity_user) ''id''
       [(''id'', JNum 2)] one_row_table =
     (Inr 0, [], one_row_table) \<and>
   one_row_table (JNum 1) \<noteq> None \<and>
   delete_resolve (table_destroy ''id'') subscribed (plain_names entity_user) ''id''
       [(''id'', JNum 1)] one_row_table =
     (Inr 1,
      [\<lparr>topic = ''user_DELETED'', payload_key = ''userDeleted'',
        payload = KeyPayload (Some (JNum 1))\<rparr>],
      one_row_table(JNum 1 := None))"
proof -
  have n: "one_row_table (JNum 2) = None" and y: "one_row_table (JNum 1) \<noteq> None"
    by (simp_all add: one_row_table_def)
  have s: "subscriptions subscribed" by (simp add: subscribed_def)
  from delete_returns_affected_rows
    [of subscribed "plain_names entity_user" "''id''" one_row_table "JNum 2"] n
  have a: "delete_resolve (table_destroy ''id'') subscribed (plain_names entity_user) ''id''
       [(''id'', JNum 2)] one_row_table = (Inr 0, [], one_row_table)"
    by blast
  from delete_returns_affected_rows
    [of subscribed "plain_names entity_user" "''id''" one_row_table "JNum 1"] y
  have "delete_resolve (table_destroy ''id'') subscribed (plain_names entity_user) ''id''
       [(''id'', JNum 1)] one_row_table =
     (Inr 1,
      (if subscriptions subscribed
       then [\<lparr>topic = toUpperWithLodashes_singular (plain_names entity_user) @ ''_DELETED'',
              payload_key = lowerFirst_singular (plain_names entity_user) @ ''Deleted'',
              payload = KeyPayload (Some (JNum 1))\<rparr>]
       else []),
      one_row_table(JNum 1 := None))"
    by blast
  with s have b: "delete_resolve (table_destroy ''id'') subscribed (plain_names entity_user) ''id''
       [(''id'', JNum 1)] one_row_table =
     (Inr 1,
      [\<lparr>topic = ''user_DELETED'', payload_key = ''userDeleted'',
        payload = KeyPayload (Some (JNum 1))\<rparr>],
      one_row_table(JNum 1 := None))"
    by (simp add: plain_names_def entity_user_def)
  show ?thesis by (intro conjI) (rule n a y b)+
qed

section \<open>Claims about the update mutation\<close>

lemma promise_all_Inr: "promise_all ps = Inr vs \<Longrightarrow> \<forall>p \<in> set ps. \<not> isl p"
  by (induction ps arbitrary: vs rule: promise_all.induct) (auto split: sum.splits)

lemma promise_all_fulfilled: "\<forall>p \<in> set ps. \<not> isl p \<Longrightarrow> \<exists>vs. promise_all ps = Inr vs"
  by (induction ps rule: promise_all.induct) auto

lemma promise_all_rejected:
  assumes "\<exists>p \<in> set ps. isl p"
  shows "\<exists>e. promise_all ps = Inl e"
proof (cases "promise_all ps")
  case (Inl e)
  then show ?thesis by blast
next
  case (Inr vs)
  with assms promise_all_Inr show ?thesis by blast
qed

lemma upsert_calls_Nil: "upsert_calls tn key inp obj [] = []"
  by (simp add: upsert_calls_def)

lemma upsert_calls_Cons:
  "upsert_calls tn key inp obj (m # rest) =
     (if wants_upsert inp m
      then upsert_call_of tn key inp obj (the (options_name_plural (the (entry_model m)))) m #
           upsert_calls tn key inp obj rest
      else upsert_calls tn key inp obj rest)"
  by (simp add: upsert_calls_def)

lemma settle_all_length: "settle_all f cs st = (rs, st') \<Longrightarrow> length rs = length cs"
  by (induction cs arbitrary: st rs) (auto split: prod.splits)

lemma push_upserts_settle:
  assumes "\<forall>m \<in> set incs. entry_model m \<noteq> None"
    and "settle_all upsertArray (upsert_calls tn key inp obj incs) st = (answers, st')"
  shows "push_upserts upsertArray tn key inp obj incs promises st =
           (None,
            promises @ zip (map UpsertArray (upsert_calls tn key inp obj incs)) answers,
            st')"
  using assms
proof (induction incs arbitrary: promises st answers)
  case Nil
  then show ?case by (simp add: upsert_calls_Nil)
next
  case (Cons m rest)
  from Cons.prems(1) obtain mdl where mdl: "entry_model m = Some mdl" by auto
  from Cons.prems(1) have rest: "\<forall>m \<in> set rest. entry_model m \<noteq> None" by simp
  show ?case
  proof (cases "wants_upsert inp m")
    case False
    with Cons.prems(2)
    have s: "settle_all upsertArray (upsert_calls tn key inp obj rest) st = (answers, st')"
      by (simp add: upsert_calls_Cons)
    from False mdl
    have "push_upserts upsertArray tn key inp obj (m # rest) promises st =
          push_upserts upsertArray tn key inp obj rest promises st"
      by (auto simp: wants_upsert_def split: option.splits)
    with Cons.IH [OF rest s, of promises] False show ?thesis
      by (simp add: upsert_calls_Cons)
  next
    case True
    with mdl obtain plural where plural: "options_name_plural mdl = Some plural"
      and present: "plural \<noteq> [] \<and> plural \<in> fst ` set inp"
      by (auto simp: wants_upsert_def split: option.splits)
    let ?call = "upsert_call_of tn key inp obj plural m"
    obtain r st1 where up: "upsertArray ?call st = (r, st1)"
      by (cases "upsertArray ?call st")
    obtain rs st2 where s0: "settle_all upsertArray (upsert_calls tn key inp obj rest) st1 = (rs, st2)"
      by (cases "settle_all upsertArray (upsert_calls tn key inp obj rest) st1")
    from Cons.prems(2) True mdl plural up s0
    have answers: "answers = r # rs" and st': "st' = st2"
      by (simp_all add: upsert_calls_Cons)
    from s0 st' have s: "settle_all upsertArray (upsert_calls tn key inp obj rest) st1 = (rs, st')"
      by simp
    from mdl plural present up
    have "push_upserts upsertArray tn key inp obj (m # rest) promises st =
          push_upserts upsertArray tn key inp obj rest
            (promises @ [(UpsertArray ?call, r)]) st1"
      by simp
    with Cons.IH [OF rest s, of "promises @ [(UpsertArray ?call, r)]"] True mdl plural
    show ?thesis
      by (simp add: upsert_calls_Cons answers)
  qed
qed

lemma update_resolve_found:
  assumes f: "findOne \<lparr>oo_where = [(key, map_of inp key)], oo_include = incs,
                        oo_dataloader = expected_options ctx\<rparr> st = (Inr (Some obj), st1)"
    and d: "\<forall>m \<in> set incs. entry_model m \<noteq> None"
    and s: "settle_all upsertArray (upsert_calls tn key inp (Some obj) incs) st1 = (answers, st2)"
    and u: "update obj inp st2 = (updated, st3)"
    and out: "out = update_resolve findOne upsertArray update resolver opts names tn key incs
                      (Some inp) ctx st"
  shows "u_settled out =
           zip (map UpsertArray (upsert_calls tn key inp (Some obj) incs)) answers @
           [(Update obj inp, map_sum id (\<lambda>r. ()) updated)] \<and>
         ((\<exists>a \<in> set answers. isl a) \<or> isl updated \<longrightarrow>
            isl (u_result out) \<and> u_published out = [] \<and> u_store out = st3) \<and>
         (\<forall>obj'. (\<forall>a \<in> set answers. \<not> isl a) \<and> updated = Inr obj' \<longrightarrow>
            u_published out =
              (if subscriptions opts
               then [\<lparr>topic = toUpperWithLodashes_singular names @ ''_UPDATED'',
                      payload_key = lowerFirst_singular names @ ''Updated'',
                      payload = RowPayload obj'\<rparr>]
               else []) \<and>
            (u_result out, u_store out) = resolver [(key, map_of inp key)] st3)"
proof -
  let ?calls = "upsert_calls tn key inp (Some obj) incs"
  have push: "push_upserts upsertArray tn key inp (Some obj) incs [] st1 =
      (None, zip (map UpsertArray ?calls) answers, st2)"
    using push_upserts_settle [OF d s, of "[]"] by simp
  have snds: "map snd (zip (map UpsertArray ?calls) answers) = answers"
    using settle_all_length [OF s] by simp
  obtain fetched st4 where r: "resolver [(key, map_of inp key)] st3 = (fetched, st4)"
    by (cases "resolver [(key, map_of inp key)] st3")
  have p1: "u_settled out =
           zip (map UpsertArray ?calls) answers @
           [(Update obj inp, map_sum id (\<lambda>r. ()) updated)]"
    unfolding out using f push u r
    by (simp add: update_resolve_def Let_def split: sum.split)
  have p2: "(\<exists>a \<in> set answers. isl a) \<or> isl updated \<longrightarrow>
            isl (u_result out) \<and> u_published out = [] \<and> u_store out = st3"
  proof
    assume bad: "(\<exists>a \<in> set answers. isl a) \<or> isl updated"
    show "isl (u_result out) \<and> u_published out = [] \<and> u_store out = st3"
    proof (cases "promise_all answers")
      case (Inl e)
      then show ?thesis
        unfolding out using f push u r snds by (simp add: update_resolve_def Let_def)
    next
      case (Inr ups)
      then have "\<forall>a \<in> set answers. \<not> isl a" by (rule promise_all_Inr)
      with bad have "isl updated" by blast
      then obtain e where "updated = Inl e" by (cases updated) auto
      with Inr show ?thesis
        unfolding out using f push u r snds by (simp add: update_resolve_def Let_def)
    qed
  qed
  have p3: "\<forall>obj'. (\<forall>a \<in> set answers. \<not> isl a) \<and> updated = Inr obj' \<longrightarrow>
            u_published out =
              (if subscriptions opts
               then [\<lparr>topic = toUpperWithLodashes_singular names @ ''_UPDATED'',
                      payload_key = lowerFirst_singular names @ ''Updated'',
                      payload = RowPayload obj'\<rparr>]
               else []) \<and>
            (u_result out, u_store out) = resolver [(key, map_of inp key)] st3"
  proof (intro allI impI)
    fix obj'
    assume ok: "(\<forall>a \<in> set answers. \<not> isl a) \<and> updated = Inr obj'"
    then have "\<forall>a \<in> set answers. \<not> isl a" by (rule conjunct1)
    then obtain ups where ups: "promise_all answers = Inr ups"
      using promise_all_fulfilled by blast
    from ok have upd: "updated = Inr obj'" by (rule conjunct2)
    show "u_published out =
              (if subscriptions opts
               then [\<lparr>topic = toUpperWithLodashes_singular names @ ''_UPDATED'',
                      payload_key = lowerFirst_singular names @ ''Updated'',
                      payload = RowPayload obj'\<rparr>]
               else []) \<and>
            (u_result out, u_store out) = resolver [(key, map_of inp key)] st3"
      unfolding out using f push u r snds ups upd by (simp add: update_resolve_def Let_def)
  qed
  show ?thesis by (intro conjI) (rule p1 p2 p3)+
qed

lemma update_resolve_not_found:
  assumes "input = None \<or>
           (\<exists>inp e st1. input = Some inp \<and>
              findOne \<lparr>oo_where = [(key, map_of inp key)], oo_include = incs,
                       oo_dataloader = expected_options ctx\<rparr> st = (Inl e, st1)) \<or>
           (\<exists>inp st1. input = Some inp \<and>
              findOne \<lparr>oo_where = [(key, map_of inp key)], oo_include = incs,
                       oo_dataloader = expected_options ctx\<rparr> st = (Inr None, st1))"
  shows "isl (u_result (update_resolve findOne upsertArray update resolver opts names tn key
                          incs input ctx st)) \<and>
         u_published (update_resolve findOne upsertArray update resolver opts names tn key
                          incs input ctx st) = []"
  using assms
  by (auto simp: update_resolve_def Let_def split: prod.splits option.splits)

text \<open>
  C4, as stated: for every update mutation the nested upserts and the parent's own
  update are all issued. When \<^verbatim>\<open>findOne\<close> answers with null (no record has the key),
  the callback still asks the store for the upserts of \<open>bs\<close> and \<open>ts\<close>, with a null
  parent, and then throws on \<^verbatim>\<open>object2Update.update\<close>: the store is never asked for
  the parent's update.
\<close>

theorem update_missing_record_counterexample:
  "getDeepAssociations 3 ''P'' P_models = Some (Inr P_includes) \<and>
   u_store missing_update = [''findOne'', ''upsertArray bs'', ''upsertArray ts''] \<and>
   u_result missing_update = Inl TypeError \<and>
   u_published missing_update = []"
  by (simp add: numeral_3_eq_3 P_models_def P_includes_def entity_P_def entity_B_def
        entity_T_def entity_C_def missing_update_def update_resolve_def tracing_findOne_def
        tracing_upsertArray_def update_input_def upsert_call_of_def)

text \<open>
  C4, amended: in an update mutation that finds its record, the store is asked for the
  upsert of every nested HasMany collection named in the input and then for the parent's
  own update, each whatever the others answer: the resolver starts them all before it
  waits for any (this is what the model keeps of their running concurrently). If any one
  of them fails, the mutation fails and publishes no event, and the store has still been
  asked for all of them. If all of them succeed, the mutation publishes exactly one
  UPDATED event when subscriptions are enabled and answers with the record fetched
  again. In every case the mutation succeeds, or publishes an event, only when the
  record was found and every one of the upserts and the update has succeeded.
\<close>

theorem update_all_or_nothing:
  assumes "out = update_resolve findOne upsertArray update resolver opts names inputTypeName key
                   includeArrayModels input ctx st"
    and "cascade_of ms inputTypeName includeArrayModels"
  shows "(\<forall>inp obj st1 answers st2 updated st3.
            input = Some inp \<and>
            findOne \<lparr>oo_where = [(key, map_of inp key)], oo_include = includeArrayModels,
                     oo_dataloader = expected_options ctx\<rparr> st = (Inr (Some obj), st1) \<and>
            settle_all upsertArray
              (upsert_calls inputTypeName key inp (Some obj) includeArrayModels) st1 =
              (answers, st2) \<and>
            update obj inp st2 = (updated, st3) \<longrightarrow>
            u_settled out =
              zip (map UpsertArray
                     (upsert_calls inputTypeName key inp (Some obj) includeArrayModels))
                answers @
              [(Update obj inp, map_sum id (\<lambda>r. ()) updated)] \<and>
            ((\<exists>a \<in> set answers. isl a) \<or> isl updated \<longrightarrow>
               isl (u_result out) \<and> u_published out = [] \<and> u_store out = st3) \<and>
            (\<forall>obj'. (\<forall>a \<in> set answers. \<not> isl a) \<and> updated = Inr obj' \<longrightarrow>
               u_published out =
                 (if subscriptions opts
                  then [\<lparr>topic = toUpperWithLodashes_singular names @ ''_UPDATED'',
                         payload_key = lowerFirst_singular names @ ''Updated'',
                         payload = RowPayload obj'\<rparr>]
                  else []) \<and>
               (u_result out, u_store out) = resolver [(key, map_of inp key)] st3)) \<and>
         (\<not> isl (u_result out) \<or> u_published out \<noteq> [] \<longrightarrow>
            (\<exists>inp obj st1 answers st2 obj' st3.
               input = Some inp \<and>
               findOne \<lparr>oo_where = [(key, map_of inp key)], oo_include = includeArrayModels,
                        oo_dataloader = expected_options ctx\<rparr> st = (Inr (Some obj), st1) \<and>
               settle_all upsertArray
                 (upsert_calls inputTypeName key inp (Some obj) includeArrayModels) st1 =
                 (answers, st2) \<and>
               (\<forall>a \<in> set answers. \<not> isl a) \<and>
               update obj inp st2 = (Inr obj', st3)))"
    (is "?found \<and> ?only")
proof -
  have d: "\<forall>m \<in> set includeArrayModels. entry_model m \<noteq> None"
    by (rule ballI) (rule cascade_of_entries_defined [OF assms(2)])
  have found: ?found
  proof (intro allI impI)
    fix inp obj st1 answers st2 updated st3
    assume a: "input = Some inp \<and>
            findOne \<lparr>oo_where = [(key, map_of inp key)], oo_include = includeArrayModels,
                     oo_dataloader = expected_options ctx\<rparr> st = (Inr (Some obj), st1) \<and>
            settle_all upsertArray
              (upsert_calls inputTypeName key inp (Some obj) includeArrayModels) st1 =
              (answers, st2) \<and>
            update obj inp st2 = (updated, st3)"
    then have i: "input = Some inp"
      and f: "findOne \<lparr>oo_where = [(key, map_of inp key)], oo_include = includeArrayModels,
                     oo_dataloader = expected_options ctx\<rparr> st = (Inr (Some obj), st1)"
      and s: "settle_all upsertArray
              (upsert_calls inputTypeName key inp (Some obj) includeArrayModels) st1 =
              (answers, st2)"
      and u: "update obj inp st2 = (updated, st3)"
      by simp_all
    from assms(1) i
    have o: "out = update_resolve findOne upsertArray update resolver opts names inputTypeName
                     key includeArrayModels (Some inp) ctx st"
      by simp
    show "u_settled out =
              zip (map UpsertArray
                     (upsert_calls inputTypeName key inp (Some obj) includeArrayModels))
                answers @
              [(Update obj inp, map_sum id (\<lambda>r. ()) updated)] \<and>
            ((\<exists>a \<in> set answers. isl a) \<or> isl updated \<longrightarrow>
               isl (u_result out) \<and> u_published out = [] \<and> u_store out = st3) \<and>
            (\<forall>obj'. (\<forall>a \<in> set answers. \<not> isl a) \<and> updated = Inr obj' \<longrightarrow>
               u_published out =
                 (if subscriptions opts
                  then [\<lparr>topic = toUpperWithLodashes_singular names @ ''_UPDATED'',
                         payload_key = lowerFirst_singular names @ ''Updated'',
                         payload = RowPayload obj'\<rparr>]
                  else []) \<and>
               (u_result out, u_store out) = resolver [(key, map_of inp key)] st3)"
      by (rule update_resolve_found) (rule f, rule d, rule s, rule u, rule o)
  qed
  have only: ?only
  proof
    assume good: "\<not> isl (u_result out) \<or> u_published out \<noteq> []"
    then have nf: "\<not> (isl (u_result out) \<and> u_published out = [])" by blast
    have "input \<noteq> None"
    proof
      assume "input = None"
      then have "isl (u_result out) \<and> u_published out = []"
        unfolding assms(1) by (simp add: update_resolve_def)
      with nf show False by simp
    qed
    then obtain inp where i: "input = Some inp" by (cases input) auto
    let ?q = "\<lparr>oo_where = [(key, map_of inp key)], oo_include = includeArrayModels,
               oo_dataloader = expected_options ctx\<rparr>"
    obtain found_rec st1 where f0: "findOne ?q st = (found_rec, st1)" by (cases "findOne ?q st")
    have "\<exists>obj. found_rec = Inr (Some obj)"
    proof (rule ccontr)
      assume "\<not> (\<exists>obj. found_rec = Inr (Some obj))"
      then have "(\<exists>e. found_rec = Inl e) \<or> found_rec = Inr None"
        by (cases found_rec) auto
      with i f0 have "input = None \<or>
           (\<exists>inp e st1. input = Some inp \<and>
              findOne \<lparr>oo_where = [(key, map_of inp key)], oo_include = includeArrayModels,
                       oo_dataloader = expected_options ctx\<rparr> st = (Inl e, st1)) \<or>
           (\<exists>inp st1. input = Some inp \<and>
              findOne \<lparr>oo_where = [(key, map_of inp key)], oo_include = includeArrayModels,
                       oo_dataloader = expected_options ctx\<rparr> st = (Inr None, st1))"
        by auto
      then have "isl (u_result out) \<and> u_published out = []"
        unfolding assms(1) by (rule update_resolve_not_found)
      with nf show False by simp
    qed
    then obtain obj where f: "findOne ?q st = (Inr (Some obj), st1)" using f0 by auto
    obtain answers st2 where
      s: "settle_all upsertArray
            (upsert_calls inputTypeName key inp (Some obj) includeArrayModels) st1 =
          (answers, st2)"
      by (cases "settle_all upsertArray
            (upsert_calls inputTypeName key inp (Some obj) includeArrayModels) st1")
    obtain updated st3 where u: "update obj inp st2 = (updated, st3)"
      by (cases "update obj inp st2")
    from assms(1) i
    have o: "out = update_resolve findOne upsertArray update resolver opts names inputTypeName
                     key includeArrayModels (Some inp) ctx st"
      by simp
    have "(\<exists>a \<in> set answers. isl a) \<or> isl updated \<longrightarrow>
               isl (u_result out) \<and> u_published out = [] \<and> u_store out = st3"
      using update_resolve_found [OF f d s u o] by (elim conjE)
    with nf have ok: "\<not> ((\<exists>a \<in> set answers. isl a) \<or> isl updated)" by blast
    then obtain obj' where obj': "updated = Inr obj'" by (cases updated) auto
    from ok have all: "\<forall>a \<in> set answers. \<not> isl a" by blast
    from u obj' have u': "update obj inp st2 = (Inr obj', st3)" by simp
    show "\<exists>inp obj st1 answers st2 obj' st3.
               input = Some inp \<and>
               findOne \<lparr>oo_where = [(key, map_of inp key)], oo_include = includeArrayModels,
                        oo_dataloader = expected_options ctx\<rparr> st = (Inr (Some obj), st1) \<and>
               settle_all upsertArray
                 (upsert_calls inputTypeName key inp (Some obj) includeArrayModels) st1 =
                 (answers, st2) \<and>
               (\<forall>a \<in> set answers. \<not> isl a) \<and>
               update obj inp st2 = (Inr obj', st3)"
      using i f s all u' by (intro exI conjI)
  qed
  from found only show ?thesis by (rule conjI)
qed

theorem update_all_or_nothing_witness:
  "cascade_of P_models ''P'' P_includes \<and>
   settle_all (tracing_upsertArray ''bs'')
       (upsert_calls ''P'' ''id'' update_input (Some found_record) P_includes) [''findOne''] =
     ([Inl (Rejected ''bs''), Inr ()], [''findOne'', ''upsertArray bs'', ''upsertArray ts'']) \<and>
   isl (u_result flaky_update) \<and> u_published flaky_update = [] \<and>
   u_store flaky_update = [''findOne'', ''upsertArray bs'', ''upsertArray ts'', ''update''] \<and>
   u_published steady_update =
     [\<lparr>topic = ''P_UPDATED'', payload_key = ''PUpdated'', payload = RowPayload update_input\<rparr>] \<and>
   (u_result steady_update, u_store steady_update) =
     (Inr (Some found_record),
      [''findOne'', ''upsertArray bs'', ''upsertArray ts'', ''update'', ''resolver''])"
proof -
  have "getDeepAssociations 3 ''P'' P_models = Some (Inr P_includes)"
    by (simp add: numeral_3_eq_3 P_models_def P_includes_def entity_P_def entity_B_def
          entity_T_def entity_C_def)
  then have cas: "cascade_of P_models ''P'' P_includes"
    unfolding cascade_of_def by (rule exI)
  have calls: "upsert_calls ''P'' ''id'' update_input (Some found_record) P_includes =
      [upsert_call_of ''P'' ''id'' update_input (Some found_record) ''bs''
         (IncludeEntry (Some entity_B) [IncludeEntry (Some entity_C) []]),
       upsert_call_of ''P'' ''id'' update_input (Some found_record) ''ts''
         (IncludeEntry (Some entity_T) [])]"
    by (simp add: upsert_calls_def wants_upsert_def P_includes_def entity_B_def entity_T_def
          update_input_def)
  have sf: "settle_all (tracing_upsertArray ''bs'')
       (upsert_calls ''P'' ''id'' update_input (Some found_record) P_includes) [''findOne''] =
     ([Inl (Rejected ''bs''), Inr ()], [''findOne'', ''upsertArray bs'', ''upsertArray ts''])"
    unfolding calls by (simp add: tracing_upsertArray_def upsert_call_of_def)
  have ss: "settle_all (tracing_upsertArray [])
       (upsert_calls ''P'' ''id'' update_input (Some found_record) P_includes) [''findOne''] =
     ([Inr (), Inr ()], [''findOne'', ''upsertArray bs'', ''upsertArray ts''])"
    unfolding calls by (simp add: tracing_upsertArray_def upsert_call_of_def)
  have af: "Some update_input = Some update_input \<and>
      tracing_findOne (Some found_record)
        \<lparr>oo_where = [(''id'', map_of update_input ''id'')], oo_include = P_includes,
          oo_dataloader = expected_options plain_context\<rparr> [] =
        (Inr (Some found_record), [''findOne'']) \<and>
      settle_all (tracing_upsertArray ''bs'')
        (upsert_calls ''P'' ''id'' update_input (Some found_record) P_includes) [''findOne''] =
        ([Inl (Rejected ''bs''), Inr ()], [''findOne'', ''upsertArray bs'', ''upsertArray ts'']) \<and>
      tracing_update found_record update_input
        [''findOne'', ''upsertArray bs'', ''upsertArray ts''] =
        (Inr update_input, [''findOne'', ''upsertArray bs'', ''upsertArray ts'', ''update''])"
    using sf by (simp add: tracing_findOne_def tracing_update_def)
  have as: "Some update_input = Some update_input \<and>
      tracing_findOne (Some found_record)
        \<lparr>oo_where = [(''id'', map_of update_input ''id'')], oo_include = P_includes,
          oo_dataloader = expected_options plain_context\<rparr> [] =
        (Inr (Some found_record), [''findOne'']) \<and>
      settle_all (tracing_upsertArray [])
        (upsert_calls ''P'' ''id'' update_input (Some found_record) P_includes) [''findOne''] =
        ([Inr (), Inr ()], [''findOne'', ''upsertArray bs'', ''upsertArray ts'']) \<and>
      tracing_update found_record update_input
        [''findOne'', ''upsertArray bs'', ''upsertArray ts''] =
        (Inr update_input, [''findOne'', ''upsertArray bs'', ''upsertArray ts'', ''update''])"
    using ss by (simp add: tracing_findOne_def tracing_update_def)
  note tf = update_all_or_nothing
    [OF flaky_update_def cas, THEN conjunct1, rule_format,
     where inp = update_input and obj = found_record and ?st1.0 = "[''findOne'']"
       and answers = "[Inl (Rejected ''bs''), Inr ()]"
       and ?st2.0 = "[''findOne'', ''upsertArray bs'', ''upsertArray ts'']"
       and updated = "Inr update_input"
       and ?st3.0 = "[''findOne'', ''upsertArray bs'', ''upsertArray ts'', ''update'']",
     OF af]
  note ts = update_all_or_nothing
    [OF steady_update_def cas, THEN conjunct1, rule_format,
     where inp = update_input and obj = found_record and ?st1.0 = "[''findOne'']"
       and answers = "[Inr (), Inr ()]"
       and ?st2.0 = "[''findOne'', ''upsertArray bs'', ''upsertArray ts'']"
       and updated = "Inr update_input"
       and ?st3.0 = "[''findOne'', ''upsertArray bs'', ''upsertArray ts'', ''update'']",
     OF as]
  from tf have "(\<exists>a \<in> set [Inl (Rejected ''bs''), Inr ()]. isl a) \<or> isl (Inr update_input :: error + row) \<longrightarrow>
      isl (u_result flaky_update) \<and> u_published flaky_update = [] \<and>
      u_store flaky_update = [''findOne'', ''upsertArray bs'', ''upsertArray ts'', ''update'']"
    by (elim conjE)
  moreover have "(\<exists>a \<in> set [Inl (Rejected ''bs''), Inr ()]. isl a) \<or>
      isl (Inr update_input :: error + row)"
    by simp
  ultimately have fail: "isl (u_result flaky_update) \<and> u_published flaky_update = [] \<and>
      u_store flaky_update = [''findOne'', ''upsertArray bs'', ''upsertArray ts'', ''update'']"
    by (rule mp)
  from ts have "\<forall>obj'. (\<forall>a \<in> set [Inr (), Inr ()]. \<not> isl (a :: error + unit)) \<and>
        (Inr update_input :: error + row) = Inr obj' \<longrightarrow>
      u_published steady_update =
        (if subscriptions subscribed
         then [\<lparr>topic = toUpperWithLodashes_singular (plain_names entity_P) @ ''_UPDATED'',
                payload_key = lowerFirst_singular (plain_names entity_P) @ ''Updated'',
                payload = RowPayload obj'\<rparr>]
         else []) \<and>
      (u_result steady_update, u_store steady_update) =
        tracing_resolver [(''id'', map_of update_input ''id'')]
          [''findOne'', ''upsertArray bs'', ''upsertArray ts'', ''update'']"
    by (elim conjE)
  then have "(\<forall>a \<in> set [Inr (), Inr ()]. \<not> isl (a :: error + unit)) \<and>
        (Inr update_input :: error + row) = Inr update_input \<longrightarrow>
      u_published steady_update =
        (if subscriptions subscribed
         then [\<lparr>topic = toUpperWithLodashes_singular (plain_names entity_P) @ ''_UPDATED'',
                payload_key = lowerFirst_singular (plain_names entity_P) @ ''Updated'',
                payload = RowPayload update_input\<rparr>]
         else []) \<and>
      (u_result steady_update, u_store steady_update) =
        tracing_resolver [(''id'', map_of update_input ''id'')]
          [''findOne'', ''upsertArray bs'', ''upsertArray ts'', ''update'']"
    by (rule spec)
  moreover have "(\<forall>a \<in> set [Inr (), Inr ()]. \<not> isl (a :: error + unit)) \<and>
        (Inr update_input :: error + row) = Inr update_input"
    by simp
  ultimately have "u_published steady_update =
        (if subscriptions subscribed
         then [\<lparr>topic = toUpperWithLodashes_singular (plain_names entity_P) @ ''_UPDATED'',
                payload_key = lowerFirst_singular (plain_names entity_P) @ ''Updated'',
                payload = RowPayload update_input\<rparr>]
         else []) \<and>
      (u_result steady_update, u_store steady_update) =
        tracing_resolver [(''id'', map_of update_input ''id'')]
          [''findOne'', ''upsertArray bs'', ''upsertArray ts'', ''update'']"
    by (rule mp)
  then have good: "u_published steady_update =
        [\<lparr>topic = ''P_UPDATED'', payload_key = ''PUpdated'', payload = RowPayload update_input\<rparr>] \<and>
      (u_result steady_update, u_store steady_update) =
        (Inr (Some found_record),
         [''findOne'', ''upsertArray bs'', ''upsertArray ts'', ''update'', ''resolver''])"
    by (simp add: subscribed_def plain_names_def entity_P_def tracing_resolver_def)
  from fail have f1: "isl (u_result flaky_update)" by (rule conjunct1)
  from fail have f23: "u_published flaky_update = [] \<and>
      u_store flaky_update = [''findOne'', ''upsertArray bs'', ''upsertArray ts'', ''update'']"
    by (rule conjunct2)
  from f23 have f2: "u_published flaky_update = []" by (rule conjunct1)
  from f23 have f3: "u_store flaky_update =
      [''findOne'', ''upsertArray bs'', ''upsertArray ts'', ''update'']"
    by (rule conjunct2)
  from good have g1: "u_published steady_update =
        [\<lparr>topic = ''P_UPDATED'', payload_key = ''PUpdated'', payload = RowPayload update_input\<rparr>]"
    by (rule conjunct1)
  from good have g2: "(u_result steady_update, u_store steady_update) =
        (Inr (Some found_record),
         [''findOne'', ''upsertArray bs'', ''upsertArray ts'', ''update'', ''resolver''])"
    by (rule conjunct2)
  from g1 g2 have g: "u_published steady_update =
        [\<lparr>topic = ''P_UPDATED'', payload_key = ''PUpdated'', payload = RowPayload update_input\<rparr>] \<and>
      (u_result steady_update, u_store steady_update) =
        (Inr (Some found_record),
         [''findOne'', ''upsertArray bs'', ''upsertArray ts'', ''update'', ''resolver''])"
    by (rule conjI)
  from f3 g have r5: "u_store flaky_update =
        [''findOne'', ''upsertArray bs'', ''upsertArray ts'', ''update''] \<and>
      u_published steady_update =
        [\<lparr>topic = ''P_UPDATED'', payload_key = ''PUpdated'', payload = RowPayload update_input\<rparr>] \<and>
      (u_result steady_update, u_store steady_update) =
        (Inr (Some found_record),
         [''findOne'', ''upsertArray bs'', ''upsertArray ts'', ''update'', ''resolver''])"
    by (rule conjI)
  from f2 r5 have r4: "u_published flaky_update = [] \<and>
      u_store flaky_update =
        [''findOne'', ''upsertArray bs'', ''upsertArray ts'', ''update''] \<and>
      u_published steady_update =
        [\<lparr>topic = ''P_UPDATED'', payload_key = ''PUpdated'', payload = RowPayload update_input\<rparr>] \<and>
      (u_result steady_update, u_store steady_update) =
        (Inr (Some found_record),
         [''findOne'', ''upsertArray bs'', ''upsertArray ts'', ''update'', ''resolver''])"
    by (rule conjI)
  from f1 r4 have r3: "isl (u_result flaky_update) \<and> u_published flaky_update = [] \<and>
      u_store flaky_update =
        [''findOne'', ''upsertArray bs'', ''upsertArray ts'', ''update''] \<and>
      u_published steady_update =
        [\<lparr>topic = ''P_UPDATED'', payload_key = ''PUpdated'', payload = RowPayload update_input\<rparr>] \<and>
      (u_result steady_update, u_store steady_update) =
        (Inr (Some found_record),
         [''findOne'', ''upsertArray bs'', ''upsertArray ts'', ''update'', ''resolver''])"
    by (rule conjI)
  from sf r3 have r2: "settle_all (tracing_upsertArray ''bs'')
       (upsert_calls ''P'' ''id'' update_input (Some found_record) P_includes) [''findOne''] =
     ([Inl (Rejected ''bs''), Inr ()], [''findOne'', ''upsertArray bs'', ''upsertArray ts'']) \<and>
      isl (u_result flaky_update) \<and> u_published flaky_update = [] \<and>
      u_store flaky_update =
        [''findOne'', ''upsertArray bs'', ''upsertArray ts'', ''update''] \<and>
      u_published steady_update =
        [\<lparr>topic = ''P_UPDATED'', payload_key = ''PUpdated'', payload = RowPayload update_input\<rparr>] \<and>
      (u_result steady_update, u_store steady_update) =
        (Inr (Some found_record),
         [''findOne'', ''upsertArray bs'', ''upsertArray ts'', ''update'', ''resolver''])"
    by (rule conjI)
  from cas r2 show ?thesis by (rule conjI)
qed

end
